theory Spec2Isabelle
  imports Main "HOL-Library.Multiset" "HOL-Library.Sublist" "HOL-Library.Product_Lexorder"
begin

section \<open>The JavaScript runtime as far as calendar.js uses it\<close>

text \<open>
  Strings of the script are modelled as \<open>string\<close>. A character outside ASCII stands as its
  UTF-8 bytes; the script only compares and concatenates such strings, and takes
  \<open>charAt(0)\<close>, \<open>slice(1)\<close> and \<open>padStart(2, '0')\<close> of strings that start with ASCII
  characters, so the encoding is not observable.
\<close>

subsection \<open>Numbers to strings\<close>

definition digit_char :: "nat \<Rightarrow> char" where
  "digit_char n = char_of (48 + n)"

fun digits :: "nat \<Rightarrow> string" where
  "digits n = (if n < 10 then [digit_char n] else digits (n div 10) @ [digit_char (n mod 10)])"

declare digits.simps [simp del]

text \<open>\<open>String(n)\<close> for an integral number \<open>n\<close>.\<close>

definition String_of_int :: "int \<Rightarrow> string" where
  "String_of_int n = (if n < 0 then CHR ''-'' # digits (nat (- n)) else digits (nat n))"

text \<open>A number read back from \<open>JSON.parse(JSON.stringify(...))\<close>: \<open>NaN\<close> has become
  \<open>null\<close>, here \<open>None\<close>. \<open>ToNumber(null)\<close> is 0 and \<open>String(null)\<close> is \<open>null\<close>.\<close>

definition ToNumber :: "int option \<Rightarrow> int" where
  "ToNumber v = (case v of None \<Rightarrow> 0 | Some n \<Rightarrow> n)"

definition String_of :: "int option \<Rightarrow> string" where
  "String_of v = (case v of None \<Rightarrow> ''null'' | Some n \<Rightarrow> String_of_int n)"

text \<open>\<open>s.padStart(2, '0')\<close>.\<close>

definition padStart2 :: "string \<Rightarrow> string" where
  "padStart2 s = replicate (2 - length s) CHR ''0'' @ s"

text \<open>\<open>s.charAt(0).toUpperCase() + s.slice(1)\<close>, for a string whose first character is
  ASCII (month names and \<open>Invalid Date\<close>).\<close>

definition toUpperCase_char :: "char \<Rightarrow> char" where
  "toUpperCase_char c =
     (if (97::nat) \<le> of_char c \<and> of_char c \<le> (122::nat)
      then char_of ((of_char c :: nat) - 32) else c)"

definition capitalize :: "string \<Rightarrow> string" where
  "capitalize s = (case s of [] \<Rightarrow> [] | c # cs \<Rightarrow> toUpperCase_char c # cs)"

subsection \<open>Date: the day and time arithmetic of ECMA-262\<close>

text \<open>
  A time value is a number of milliseconds since the epoch, or \<open>NaN\<close> (\<open>None\<close>). The local
  time zone is a parameter \<open>tza\<close>: the offset of local time from UTC in milliseconds, taken
  as constant (Sao Paulo is \<open>-10800000\<close>).
\<close>

definition msPerDay :: int where
  "msPerDay = 86400000"

definition Day :: "int \<Rightarrow> int" where
  "Day t = t div msPerDay"

definition DayFromYear :: "int \<Rightarrow> int" where
  "DayFromYear y = 365 * (y - 1970) + (y - 1969) div 4 - (y - 1901) div 100 + (y - 1601) div 400"

definition leap_year :: "int \<Rightarrow> bool" where
  "leap_year y = (y mod 4 = 0 \<and> (y mod 100 \<noteq> 0 \<or> y mod 400 = 0))"

definition DaysInYear :: "int \<Rightarrow> int" where
  "DaysInYear y = (if leap_year y then 366 else 365)"

lemma div_step:
  fixes y k :: int
  assumes "0 < k"
  shows "(y + 1) div k = y div k + (if (y + 1) mod k = 0 then 1 else 0)"
proof -
  define q r where "q = y div k" and "r = y mod k"
  have y: "y = k * q + r" and r: "0 \<le> r" "r < k"
    using assms by (simp_all add: q_def r_def)
  show ?thesis
  proof (cases "r + 1 = k")
    case True
    have e: "y + 1 = k * (q + 1) + 0"
      using y True by (simp add: algebra_simps)
    have "(y + 1) div k = q + 1" "(y + 1) mod k = 0"
      using int_div_pos_eq [OF e] int_mod_pos_eq [OF e] assms by simp_all
    then show ?thesis by (simp add: q_def)
  next
    case False
    have e: "y + 1 = k * q + (r + 1)"
      using y by simp
    have b: "0 \<le> r + 1" "r + 1 < k"
      using r False by simp_all
    have "(y + 1) div k = q" "(y + 1) mod k = r + 1"
      using int_div_pos_eq [OF e b] int_mod_pos_eq [OF e b] by simp_all
    then show ?thesis using r by (simp add: q_def)
  qed
qed

lemma mod_shift: "(y - k * c) mod k = y mod k" for y k c :: int
  by (metis mod_mult_self2 diff_conv_add_uminus mult_minus_right)

lemma div_shift_step:
  fixes y k c :: int
  assumes "0 < k"
  shows "(y + 1 - (k * c + 1)) div k = (y - (k * c + 1)) div k + (if y mod k = 0 then 1 else 0)"
proof -
  have "y + 1 - (k * c + 1) = (y - (k * c + 1)) + 1" "y - (k * c + 1) + 1 = y - k * c"
    by simp_all
  then show ?thesis
    using div_step [OF assms, of "y - (k * c + 1)"] mod_shift [of y k c] by simp
qed

lemma year_step_combine:
  fixes a b c a' b' c' y :: int
  assumes "a' = a + (if p4 then 1 else 0)"
    and "b' = b + (if p100 then 1 else 0)"
    and "c' = c + (if p400 then 1 else 0)"
    and "p400 \<Longrightarrow> p100" and "p100 \<Longrightarrow> p4"
  shows "365 * (y + 1 - 1970) + a' - b' + c' =
         365 * (y - 1970) + a - b + c + (if p4 \<and> (\<not> p100 \<or> p400) then 366 else 365)"
  using assms by auto

lemma DayFromYear_Suc: "DayFromYear (y + 1) = DayFromYear y + DaysInYear y"
proof -
  have a: "(y + 1 - 1969) div 4 = (y - 1969) div 4 + (if y mod 4 = 0 then 1 else 0)"
    using div_shift_step [of 4 y 492] by simp
  have b: "(y + 1 - 1901) div 100 = (y - 1901) div 100 + (if y mod 100 = 0 then 1 else 0)"
    using div_shift_step [of 100 y 19] by simp
  have c: "(y + 1 - 1601) div 400 = (y - 1601) div 400 + (if y mod 400 = 0 then 1 else 0)"
    using div_shift_step [of 400 y 4] by simp
  have d: "y mod 400 = 0 \<Longrightarrow> y mod 100 = 0"
    using dvd_trans [of 100 400 y] by (simp add: mod_eq_0_iff_dvd)
  have e: "y mod 100 = 0 \<Longrightarrow> y mod 4 = 0"
    using dvd_trans [of 4 100 y] by (simp add: mod_eq_0_iff_dvd)
  show ?thesis
    unfolding DayFromYear_def DaysInYear_def leap_year_def
    by (rule year_step_combine [OF a b c d e])
qed

lemma DayFromYear_step: "DayFromYear y < DayFromYear (y + 1)"
  by (simp add: DayFromYear_Suc DaysInYear_def)

lemma DayFromYear_pred: "DayFromYear (y - 1) < DayFromYear y"
  using DayFromYear_step [of "y - 1"] by simp

text \<open>\<open>YearFromTime\<close> is the largest year whose first day is not after the given day. It is
  computed by a search from an estimate: down to a year that starts early enough, then up
  to the last such year.\<close>

function year_down :: "int \<Rightarrow> int \<Rightarrow> int" where
  "year_down d y = (if d < DayFromYear y then year_down d (y - 1) else y)"
  by pat_completeness auto
termination
proof (relation "measure (\<lambda>(d, y). nat (DayFromYear y - d))")
  show "wf (measure (\<lambda>(d, y). nat (DayFromYear y - d)))"
    by simp
next
  fix d y :: int
  assume "d < DayFromYear y"
  then show "((d, y - 1), (d, y)) \<in> measure (\<lambda>(d, y). nat (DayFromYear y - d))"
    using DayFromYear_pred [of y] by simp
qed

function year_up :: "int \<Rightarrow> int \<Rightarrow> int" where
  "year_up d y = (if DayFromYear (y + 1) \<le> d then year_up d (y + 1) else y)"
  by pat_completeness auto
termination
proof (relation "measure (\<lambda>(d, y). nat (d - DayFromYear y))")
  show "wf (measure (\<lambda>(d, y). nat (d - DayFromYear y)))"
    by simp
next
  fix d y :: int
  assume "DayFromYear (y + 1) \<le> d"
  then show "((d, y + 1), (d, y)) \<in> measure (\<lambda>(d, y). nat (d - DayFromYear y))"
    using DayFromYear_step [of y] by simp
qed

declare year_down.simps [simp del] year_up.simps [simp del]

definition YearFromDay :: "int \<Rightarrow> int" where
  "YearFromDay d = year_up d (year_down d (1970 + d div 366))"

text \<open>The first day of month \<open>m\<close> (0 to 11) within its year; \<open>l\<close> is 1 in a leap year.\<close>

definition month_start :: "int \<Rightarrow> int \<Rightarrow> int" where
  "month_start m l =
     (if m \<le> 0 then 0 else if m = 1 then 31 else if m = 2 then 59 + l
      else if m = 3 then 90 + l else if m = 4 then 120 + l else if m = 5 then 151 + l
      else if m = 6 then 181 + l else if m = 7 then 212 + l else if m = 8 then 243 + l
      else if m = 9 then 273 + l else if m = 10 then 304 + l else if m = 11 then 334 + l
      else 365 + l)"

definition InLeapYear :: "int \<Rightarrow> int" where
  "InLeapYear d = (if leap_year (YearFromDay d) then 1 else 0)"

definition DayWithinYear :: "int \<Rightarrow> int" where
  "DayWithinYear d = d - DayFromYear (YearFromDay d)"

definition month_of :: "int \<Rightarrow> int \<Rightarrow> int" where
  "month_of w l =
     (if w < month_start 1 l then 0 else if w < month_start 2 l then 1
      else if w < month_start 3 l then 2 else if w < month_start 4 l then 3
      else if w < month_start 5 l then 4 else if w < month_start 6 l then 5
      else if w < month_start 7 l then 6 else if w < month_start 8 l then 7
      else if w < month_start 9 l then 8 else if w < month_start 10 l then 9
      else if w < month_start 11 l then 10 else 11)"

definition MonthFromDay :: "int \<Rightarrow> int" where
  "MonthFromDay d = month_of (DayWithinYear d) (InLeapYear d)"

definition DateFromDay :: "int \<Rightarrow> int" where
  "DateFromDay d = DayWithinYear d - month_start (MonthFromDay d) (InLeapYear d) + 1"

definition WeekDay :: "int \<Rightarrow> int" where
  "WeekDay d = (d + 4) mod 7"

text \<open>\<open>MakeDay(year, month, date)\<close>: the month may lie outside 0 to 11 and the date
  outside the month; both carry over.\<close>

definition MakeDay :: "int \<Rightarrow> int \<Rightarrow> int \<Rightarrow> int" where
  "MakeDay year month date =
     (let ym = year + month div 12; mn = month mod 12
      in DayFromYear ym + month_start mn (if leap_year ym then 1 else 0) + date - 1)"

definition TimeClip :: "int \<Rightarrow> int option" where
  "TimeClip t = (if \<bar>t\<bar> \<le> 8640000000000000 then Some t else None)"

text \<open>\<open>new Date(year, month, date)\<close> reads its arguments as local time; a year from 0 to 99
  means 1900 to 1999.\<close>

definition Date_local :: "int \<Rightarrow> int \<Rightarrow> int \<Rightarrow> int \<Rightarrow> int option" where
  "Date_local tza year month date =
     (let yr = (if 0 \<le> year \<and> year \<le> 99 then 1900 + year else year)
      in TimeClip (MakeDay yr month date * msPerDay - tza))"

definition getFullYear :: "int \<Rightarrow> int option \<Rightarrow> int option" where
  "getFullYear tza dv = (case dv of None \<Rightarrow> None | Some t \<Rightarrow> Some (YearFromDay (Day (t + tza))))"

definition getMonth :: "int \<Rightarrow> int option \<Rightarrow> int option" where
  "getMonth tza dv = (case dv of None \<Rightarrow> None | Some t \<Rightarrow> Some (MonthFromDay (Day (t + tza))))"

definition getDate :: "int \<Rightarrow> int option \<Rightarrow> int option" where
  "getDate tza dv = (case dv of None \<Rightarrow> None | Some t \<Rightarrow> Some (DateFromDay (Day (t + tza))))"

definition getDay :: "int \<Rightarrow> int option \<Rightarrow> int option" where
  "getDay tza dv = (case dv of None \<Rightarrow> None | Some t \<Rightarrow> Some (WeekDay (Day (t + tza))))"

text \<open>The days of month \<open>m\<close> (1 to 12) of year \<open>y\<close> in the Gregorian calendar.\<close>

definition days_in_month :: "int \<Rightarrow> int \<Rightarrow> int" where
  "days_in_month y m =
     (if m = 2 then (if leap_year y then 29 else 28)
      else if m = 4 \<or> m = 6 \<or> m = 9 \<or> m = 11 then 30 else 31)"

text \<open>\<open>new Date(s)\<close> for a string. The date-only forms \<open>YYYY\<close>, \<open>YYYY-MM\<close> and
  \<open>YYYY-MM-DD\<close> of the standard's date-time string format, with a month from 01 to 12
  and a day from 01 to the last day of the month, are midnight UTC of that day. What any
  other string gives (a form with a time of day, a day past the end of the month, and
  whatever else an implementation accepts or refuses) is the implementation's choice: it
  is the parameter \<open>other\<close>, the time value or \<open>NaN\<close> that the implementation's parser
  returns for the string.\<close>

definition digit_val :: "char \<Rightarrow> int option" where
  "digit_val c =
     (if (48::nat) \<le> of_char c \<and> of_char c \<le> (57::nat) then Some (int (of_char c) - 48) else None)"

fun number_of :: "int \<Rightarrow> string \<Rightarrow> int option" where
  "number_of acc [] = Some acc"
| "number_of acc (c # cs) =
     (case digit_val c of None \<Rightarrow> None | Some v \<Rightarrow> number_of (10 * acc + v) cs)"

definition date_only :: "string \<Rightarrow> (int \<times> int \<times> int) option" where
  "date_only s =
     (if length s = 4 then
        (case number_of 0 s of None \<Rightarrow> None | Some y \<Rightarrow> Some (y, 1, 1))
      else if length s = 7 \<and> s ! 4 = CHR ''-'' then
        (case number_of 0 (take 4 s) of None \<Rightarrow> None | Some y \<Rightarrow>
         case number_of 0 (drop 5 s) of None \<Rightarrow> None | Some m \<Rightarrow>
           if 1 \<le> m \<and> m \<le> 12 then Some (y, m, 1) else None)
      else if length s = 10 \<and> s ! 4 = CHR ''-'' \<and> s ! 7 = CHR ''-'' then
        (case number_of 0 (take 4 s) of None \<Rightarrow> None | Some y \<Rightarrow>
         case number_of 0 (take 2 (drop 5 s)) of None \<Rightarrow> None | Some m \<Rightarrow>
         case number_of 0 (drop 8 s) of None \<Rightarrow> None | Some d \<Rightarrow>
           if 1 \<le> m \<and> m \<le> 12 \<and> 1 \<le> d \<and> d \<le> days_in_month y m
           then Some (y, m, d) else None)
      else None)"

definition Date_parse :: "(string \<Rightarrow> int option) \<Rightarrow> string \<Rightarrow> int option" where
  "Date_parse other s =
     (case date_only s of
        None \<Rightarrow> other s
      | Some (y, m, d) \<Rightarrow> TimeClip (MakeDay y (m - 1) d * msPerDay))"

subsection \<open>Date: formatting in the locale pt-BR\<close>

definition month_long :: "int \<Rightarrow> string" where
  "month_long m =
     (if m = 0 then ''janeiro'' else if m = 1 then ''fevereiro''
      else if m = 2 then ''mar'' @ [CHR 0xC3, CHR 0xA7] @ ''o'' else if m = 3 then ''abril''
      else if m = 4 then ''maio'' else if m = 5 then ''junho'' else if m = 6 then ''julho''
      else if m = 7 then ''agosto'' else if m = 8 then ''setembro''
      else if m = 9 then ''outubro'' else if m = 10 then ''novembro'' else ''dezembro'')"

text \<open>\<open>date.toLocaleString('pt-BR', { month: 'long' })\<close>.\<close>

definition toLocaleString_month :: "int \<Rightarrow> int option \<Rightarrow> string" where
  "toLocaleString_month tza dv =
     (case getMonth tza dv of None \<Rightarrow> ''Invalid Date'' | Some m \<Rightarrow> month_long m)"

text \<open>\<open>date.toLocaleString('pt-BR', { month: 'long', year: 'numeric' })\<close>. The year is
  printed as a year of its era: year 0 is 1 (before Christ).\<close>

definition toLocaleString_month_year :: "int \<Rightarrow> int option \<Rightarrow> string" where
  "toLocaleString_month_year tza dv =
     (case (getMonth tza dv, getFullYear tza dv) of
        (Some m, Some y) \<Rightarrow>
          month_long m @ '' de '' @ String_of_int (if y \<le> 0 then 1 - y else y)
      | _ \<Rightarrow> ''Invalid Date'')"

subsection \<open>Objects used as tables, arrays\<close>

text \<open>
  An object literal keeps its own properties in insertion order and inherits the
  properties of \<open>Object.prototype\<close>: a lookup \<open>table[key]\<close> of a key the literal does not
  have finds the inherited member when the key names one, and \<open>undefined\<close> otherwise. The
  inherited members are functions, and \<open>Object.prototype\<close> itself under \<open>__proto__\<close>:
  none is a string and all are truthy.
\<close>

datatype jsval = JStr string | JInherited string

definition Object_prototype_keys :: "string list" where
  "Object_prototype_keys =
     [''constructor'', ''__proto__'', ''hasOwnProperty'', ''isPrototypeOf'',
      ''propertyIsEnumerable'', ''toLocaleString'', ''toString'', ''valueOf'',
      ''__defineGetter__'', ''__defineSetter__'', ''__lookupGetter__'', ''__lookupSetter__'']"

definition obj_get :: "(string \<times> string) list \<Rightarrow> string \<Rightarrow> jsval option" where
  "obj_get own k =
     (case map_of own k of
        Some v \<Rightarrow> Some (JStr v)
      | None \<Rightarrow> if k \<in> set Object_prototype_keys then Some (JInherited k) else None)"

text \<open>\<open>v || d\<close> for a looked-up value and a string.\<close>

definition or_default :: "jsval option \<Rightarrow> string \<Rightarrow> jsval" where
  "or_default v d =
     (case v of None \<Rightarrow> JStr d
      | Some (JStr s) \<Rightarrow> if s = [] then JStr d else JStr s
      | Some (JInherited k) \<Rightarrow> JInherited k)"

text \<open>\<open>s || d\<close> and the test \<open>s ? a : b\<close> for an optional string field: a missing field
  and the empty string are falsy.\<close>

definition truthy :: "string option \<Rightarrow> bool" where
  "truthy s = (s \<noteq> None \<and> s \<noteq> Some [])"

definition str_or :: "string option \<Rightarrow> string \<Rightarrow> string" where
  "str_or s d = (case s of None \<Rightarrow> d | Some v \<Rightarrow> if v = [] then d else v)"

text \<open>\<open>xs.indexOf(x)\<close>.\<close>

fun indexOf_from :: "int \<Rightarrow> 'a list \<Rightarrow> 'a \<Rightarrow> int" where
  "indexOf_from i [] x = - 1"
| "indexOf_from i (y # ys) x = (if y = x then i else indexOf_from (i + 1) ys x)"

definition indexOf :: "'a list \<Rightarrow> 'a \<Rightarrow> int" where
  "indexOf xs x = indexOf_from 0 xs x"

text \<open>\<open>xs.filter(p)\<close>: a loop that pushes the elements that pass onto a new array.\<close>

fun filter_loop :: "('a \<Rightarrow> bool) \<Rightarrow> 'a list \<Rightarrow> 'a list \<Rightarrow> 'a list" where
  "filter_loop p acc [] = acc"
| "filter_loop p acc (x # xs) = filter_loop p (if p x then acc @ [x] else acc) xs"

definition Array_filter :: "'a list \<Rightarrow> ('a \<Rightarrow> bool) \<Rightarrow> 'a list" where
  "Array_filter xs p = filter_loop p [] xs"

text \<open>\<open>xs.sort(cmp)\<close>. The sort of the standard is stable, and the standard fixes its
  result when the comparator is consistent on the elements: the elements in ascending
  order, those that compare equal in their order in \<open>xs\<close>. That is the list the insertion
  sort \<open>stable_sort\<close> returns. With a comparator that is not consistent the order is the
  implementation's choice: the parameter \<open>impl\<close> gives the array the implementation then
  leaves.\<close>

text \<open>A consistent comparator, as the standard defines it: \<open>cmp a b = 0\<close> is reflexive,
  symmetric and transitive, and \<open>cmp a b < 0\<close> and \<open>cmp a b > 0\<close> are transitive.\<close>

definition consistent :: "('a \<Rightarrow> 'a \<Rightarrow> int) \<Rightarrow> 'a list \<Rightarrow> bool" where
  "consistent cmp xs \<longleftrightarrow>
     (\<forall>a \<in> set xs. cmp a a = 0 \<and>
        (\<forall>b \<in> set xs. (cmp a b = 0 \<longrightarrow> cmp b a = 0) \<and>
           (\<forall>c \<in> set xs.
              (cmp a b = 0 \<and> cmp b c = 0 \<longrightarrow> cmp a c = 0) \<and>
              (cmp a b < 0 \<and> cmp b c < 0 \<longrightarrow> cmp a c < 0) \<and>
              (cmp a b > 0 \<and> cmp b c > 0 \<longrightarrow> cmp a c > 0))))"

fun insert_cmp :: "('a \<Rightarrow> 'a \<Rightarrow> int) \<Rightarrow> 'a \<Rightarrow> 'a list \<Rightarrow> 'a list" where
  "insert_cmp cmp x [] = [x]"
| "insert_cmp cmp x (y # ys) = (if cmp x y \<le> 0 then x # y # ys else y # insert_cmp cmp x ys)"

definition stable_sort :: "'a list \<Rightarrow> ('a \<Rightarrow> 'a \<Rightarrow> int) \<Rightarrow> 'a list" where
  "stable_sort xs cmp = foldr (insert_cmp cmp) xs []"

definition Array_sort :: "('a list \<Rightarrow> 'a list) \<Rightarrow> 'a list \<Rightarrow> ('a \<Rightarrow> 'a \<Rightarrow> int) \<Rightarrow> 'a list" where
  "Array_sort impl xs cmp = (if consistent cmp xs then stable_sort xs cmp else impl xs)"

subsection \<open>The implementation\<close>

text \<open>
  What the results of the script depend on beyond the standard: the offset of local time
  from UTC in milliseconds (\<open>LocalTZA\<close>, taken as constant), the parser of the date strings
  outside the standard's date-only forms, and the order that \<open>sort\<close> leaves under a
  comparator that is not consistent, for the two arrays the script sorts.
\<close>

record runtime =
  LocalTZA :: int
  Date_parse_other :: "string \<Rightarrow> int option"
  sort_keys_other :: "string list \<Rightarrow> string list"
  sort_months_other :: "(int option \<times> int option) list \<Rightarrow> (int option \<times> int option) list"

subsection \<open>The document\<close>

text \<open>
  An element as far as the script writes it: its tag, its class list, the text given to
  \<open>textContent\<close>, \<open>style.backgroundColor\<close>, the attribute \<open>data-tooltip\<close>, \<open>title\<close> and its
  children. A fresh element has no class, no text and no style.
\<close>

datatype element = Element
  (tagName: string)
  (classList: "string list")
  (textContent: string)
  (backgroundColor: string)
  (dataTooltip: "string option")
  (title: string)
  (children: "element list")

datatype js_error = NetworkError | SyntaxError | InvalidCharacterError

definition createElement :: "string \<Rightarrow> element" where
  "createElement tg = Element tg [] [] [] None [] []"

fun set_className :: "string list \<Rightarrow> element \<Rightarrow> element" where
  "set_className cs (Element tg _ tx bg tt ti ch) = Element tg cs tx bg tt ti ch"

fun set_textContent :: "string \<Rightarrow> element \<Rightarrow> element" where
  "set_textContent tx (Element tg cs _ bg tt ti ch) = Element tg cs tx bg tt ti ch"

text \<open>\<open>el.style.backgroundColor = v\<close>: a value that is no colour (here: no string) leaves
  the style as it was.\<close>

fun set_backgroundColor :: "jsval \<Rightarrow> element \<Rightarrow> element" where
  "set_backgroundColor (JStr bg) (Element tg cs tx _ tt ti ch) = Element tg cs tx bg tt ti ch"
| "set_backgroundColor (JInherited k) e = e"

fun set_dataTooltip :: "string \<Rightarrow> element \<Rightarrow> element" where
  "set_dataTooltip tt (Element tg cs tx bg _ ti ch) = Element tg cs tx bg (Some tt) ti ch"

fun set_title :: "string \<Rightarrow> element \<Rightarrow> element" where
  "set_title ti (Element tg cs tx bg tt _ ch) = Element tg cs tx bg tt ti ch"

fun appendChild :: "element \<Rightarrow> element \<Rightarrow> element" where
  "appendChild (Element tg cs tx bg tt ti ch) c = Element tg cs tx bg tt ti (ch @ [c])"

text \<open>\<open>el.classList.add(a, b)\<close> with a string \<open>a\<close> and a looked-up \<open>b\<close>. A token is turned
  into a string first; the text of a function and \<open>[object Object]\<close> contain spaces, and a
  token with a space raises \<open>InvalidCharacterError\<close>. The class names of the script have
  none.\<close>

fun classList_add :: "string \<Rightarrow> jsval \<Rightarrow> element \<Rightarrow> js_error + element" where
  "classList_add a (JStr b) (Element tg cs tx bg tt ti ch) =
     Inr (Element tg (cs @ [a, b]) tx bg tt ti ch)"
| "classList_add a (JInherited k) e = Inl InvalidCharacterError"

section \<open>calendar.js\<close>

subsection \<open>The data\<close>

record evento =
  data :: string
  titulo :: string
  categoria :: string
  hora :: "string option"
  local :: "string option"

text \<open>The globals \<open>allEventos\<close> and \<open>currentFilter\<close>, and what the script reaches of the
  page: the two containers, the two info texts, the \<open>src\<close> of the logo image when the page
  has one, and the error console.\<close>

record state =
  allEventos :: "evento list"
  currentFilter :: string
  eventos_container :: "element list"
  calendars_container :: "element list"
  local_info :: string
  contact_info :: string
  logo_src :: "string option"
  console :: "js_error list"

definition categoryColors :: "(string \<times> string) list" where
  "categoryColors =
     [(''Estadual'', ''#1e3a52''),
      (''Ritual'' @ [CHR 0xC3, CHR 0xAD] @ ''stica'', ''#4a7c59''),
      (''Entretenimento'', ''#d4a574''),
      (''P'' @ [CHR 0xC3, CHR 0xBA] @ ''blica'', ''#4a9b8e''),
      (''Feriado'', ''#e74c3c''),
      (''Sem Atividade'', ''#2c3e50'')]"

definition categoryCssClasses :: "(string \<times> string) list" where
  "categoryCssClasses =
     [(''Estadual'', ''estadual''),
      (''Ritual'' @ [CHR 0xC3, CHR 0xAD] @ ''stica'', ''ritualistica''),
      (''Entretenimento'', ''entretenimento''),
      (''P'' @ [CHR 0xC3, CHR 0xBA] @ ''blica'', ''publica''),
      (''Feriado'', ''feriado''),
      (''Sem Atividade'', ''sematividade'')]"

subsection \<open>getFilteredEventos\<close>

definition getFilteredEventos :: "state \<Rightarrow> evento list" where
  "getFilteredEventos st =
     (if currentFilter st = ''Todas'' then allEventos st
      else Array_filter (allEventos st) (\<lambda>e. categoria e = currentFilter st))"

subsection \<open>groupEventosByMonth\<close>

text \<open>The object \<open>grouped\<close> is a list of its own properties in insertion order. Its keys
  are capitalised month names or \<open>Invalid Date\<close>, never a key of \<open>Object.prototype\<close>
  (\<open>monthName_own\<close> below), so a lookup finds an own property or nothing.\<close>

definition monthName_of :: "runtime \<Rightarrow> evento \<Rightarrow> string" where
  "monthName_of rt evento =
     (let date = Date_parse (Date_parse_other rt) (data evento)
      in capitalize (toLocaleString_month (LocalTZA rt) date))"

fun obj_put :: "(string \<times> 'v) list \<Rightarrow> string \<Rightarrow> 'v \<Rightarrow> (string \<times> 'v) list" where
  "obj_put [] k v = [(k, v)]"
| "obj_put ((k', v') # kvs) k v = (if k' = k then (k, v) # kvs else (k', v') # obj_put kvs k v)"

text \<open>\<open>obj[k].push(x)\<close>: the array under \<open>k\<close> grows in place.\<close>

fun obj_push :: "(string \<times> 'a list) list \<Rightarrow> string \<Rightarrow> 'a \<Rightarrow> (string \<times> 'a list) list" where
  "obj_push [] k x = []"
| "obj_push ((k', xs) # kvs) k x =
     (if k' = k then (k', xs @ [x]) # kvs else (k', xs) # obj_push kvs k x)"

definition group_step ::
  "runtime \<Rightarrow> (string \<times> evento list) list \<Rightarrow> evento \<Rightarrow> (string \<times> evento list) list" where
  "group_step rt grouped evento =
     (let monthName = monthName_of rt evento;
          grouped1 = (if map_of grouped monthName = None then obj_put grouped monthName []
                      else grouped)
      in obj_push grouped1 monthName evento)"

definition groupEventosByMonth :: "runtime \<Rightarrow> evento list \<Rightarrow> (string \<times> evento list) list" where
  "groupEventosByMonth rt evs = foldl (group_step rt) [] evs"

subsection \<open>renderEventsList\<close>

definition meses :: "string list" where
  "meses =
     [''Janeiro'', ''Fevereiro'', ''Mar'' @ [CHR 0xC3, CHR 0xA7] @ ''o'', ''Abril'', ''Maio'',
      ''Junho'', ''Julho'', ''Agosto'', ''Setembro'', ''Outubro'', ''Novembro'', ''Dezembro'']"

text \<open>\<open>String(n)\<close> for a number that may be \<open>NaN\<close>.\<close>

definition String_of_number :: "int option \<Rightarrow> string" where
  "String_of_number v = (case v of None \<Rightarrow> ''NaN'' | Some n \<Rightarrow> String_of_int n)"

definition text_div :: "string \<Rightarrow> string \<Rightarrow> element" where
  "text_div cls tx = set_textContent tx (set_className [cls] (createElement ''div''))"

definition event_item :: "runtime \<Rightarrow> evento \<Rightarrow> element" where
  "event_item rt evento =
     (let eventDiv = set_className [''event-item''] (createElement ''div'');
          date = Date_parse (Date_parse_other rt) (data evento);
          day = getDate (LocalTZA rt) date;
          dateBox = set_backgroundColor (or_default (obj_get categoryColors (categoria evento)) ''#999'')
                      (text_div ''event-date-box'' (String_of_number day));
          detailsDiv = set_className [''event-details''] (createElement ''div'');
          titleDiv = text_div ''event-title'' (titulo evento);
          categoryDiv = text_div ''event-category'' (categoria evento);
          timeDiv = text_div ''event-time''
                      (str_or (hora evento) (''Hor'' @ [CHR 0xC3, CHR 0xA1] @ ''rio n''
                         @ [CHR 0xC3, CHR 0xA3] @ ''o definido''));
          locationDiv = text_div ''event-location''
                      (str_or (local evento) (''Local n'' @ [CHR 0xC3, CHR 0xA3] @ ''o definido''));
          detailsDiv1 = foldl appendChild detailsDiv [titleDiv, categoryDiv, timeDiv, locationDiv]
      in foldl appendChild eventDiv [dateBox, detailsDiv1])"

definition month_group :: "runtime \<Rightarrow> string \<Rightarrow> evento list \<Rightarrow> element" where
  "month_group rt month evs =
     (let monthDiv = set_className [''month-group''] (createElement ''div'');
          monthTitle = set_textContent month (set_className [''month-title''] (createElement ''h3''));
          monthDiv1 = appendChild monthDiv monthTitle
      in foldl (\<lambda>monthDiv evento. appendChild monthDiv (event_item rt evento)) monthDiv1 evs)"

text \<open>\<open>grouped[month]\<close> for a key taken from \<open>Object.keys(grouped)\<close>.\<close>

definition own_property :: "(string \<times> 'a list) list \<Rightarrow> string \<Rightarrow> 'a list" where
  "own_property grouped k = (case map_of grouped k of None \<Rightarrow> [] | Some xs \<Rightarrow> xs)"

definition monthKeys_of :: "runtime \<Rightarrow> (string \<times> evento list) list \<Rightarrow> string list" where
  "monthKeys_of rt grouped =
     Array_sort (sort_keys_other rt) (map fst grouped) (\<lambda>a b. indexOf meses a - indexOf meses b)"

definition renderEventsList :: "runtime \<Rightarrow> state \<Rightarrow> state" where
  "renderEventsList rt st =
     (let filtered = getFilteredEventos st;
          grouped = groupEventosByMonth rt filtered;
          monthKeys = monthKeys_of rt grouped
      in st\<lparr>eventos_container :=
            foldl (\<lambda>container month. container @ [month_group rt month (own_property grouped month)])
              [] monthKeys\<rparr>)"

subsection \<open>getMonthsWithEvents\<close>

text \<open>
  The \<open>Set\<close> holds the texts \<open>JSON.stringify({ year, month })\<close> in insertion order.
  \<open>JSON.stringify\<close> writes \<open>NaN\<close> as \<open>null\<close> and two such objects have the same text exactly
  when they have the same year and month, so the set is modelled as the list of the
  distinct pairs that \<open>JSON.parse\<close> gives back, \<open>None\<close> standing for \<open>null\<close>.
\<close>

type_synonym year_month = "int option \<times> int option"

definition Set_add :: "'a list \<Rightarrow> 'a \<Rightarrow> 'a list" where
  "Set_add months m = (if m \<in> set months then months else months @ [m])"

definition year_month_of :: "runtime \<Rightarrow> evento \<Rightarrow> year_month" where
  "year_month_of rt evento =
     (let date = Date_parse (Date_parse_other rt) (data evento);
          year = getFullYear (LocalTZA rt) date;
          month = map_option (\<lambda>m. m + 1) (getMonth (LocalTZA rt) date)
      in (year, month))"

definition compare_months :: "year_month \<Rightarrow> year_month \<Rightarrow> int" where
  "compare_months a b =
     (if fst a \<noteq> fst b then ToNumber (fst a) - ToNumber (fst b)
      else ToNumber (snd a) - ToNumber (snd b))"

definition getMonthsWithEvents :: "runtime \<Rightarrow> state \<Rightarrow> year_month list" where
  "getMonthsWithEvents rt st =
     (let months = foldl (\<lambda>months evento. Set_add months (year_month_of rt evento)) []
                     (allEventos st)
      in Array_sort (sort_months_other rt) months compare_months)"

subsection \<open>renderCalendars\<close>

definition dayHeaders :: "string list" where
  "dayHeaders = [''Dom'', ''Seg'', ''Ter'', ''Qua'', ''Qui'', ''Sex'', ''S'' @ [CHR 0xC3, CHR 0xA1] @ ''b'']"

definition firstDay_of :: "runtime \<Rightarrow> year_month \<Rightarrow> int option" where
  "firstDay_of rt ym =
     getDay (LocalTZA rt) (Date_local (LocalTZA rt) (ToNumber (fst ym)) (ToNumber (snd ym) - 1) 1)"

definition daysInMonth_of :: "runtime \<Rightarrow> year_month \<Rightarrow> int option" where
  "daysInMonth_of rt ym =
     getDate (LocalTZA rt) (Date_local (LocalTZA rt) (ToNumber (fst ym)) (ToNumber (snd ym)) 0)"

text \<open>The bound of a counting loop \<open>i < n\<close> or \<open>i <= n\<close>: a comparison with \<open>NaN\<close> is
  false, so the loop body never runs.\<close>

definition loop_bound :: "int option \<Rightarrow> int" where
  "loop_bound n = (case n of None \<Rightarrow> 0 | Some k \<Rightarrow> k)"

definition dateStr_of :: "year_month \<Rightarrow> int \<Rightarrow> string" where
  "dateStr_of ym day =
     String_of (fst ym) @ ''-'' @ padStart2 (String_of (snd ym)) @ ''-''
       @ padStart2 (String_of_int day)"

definition tooltip_of :: "evento \<Rightarrow> string" where
  "tooltip_of evento =
     (let horaText = (if truthy (hora evento)
                      then [CHR 0xE2, CHR 0x8F, CHR 0xB0] @ '' '' @ str_or (hora evento) [] else []);
          localText = (if truthy (local evento)
                       then [CHR 0xF0, CHR 0x9F, CHR 0x93, CHR 0x8D] @ '' '' @ str_or (local evento) []
                       else [])
      in titulo evento @ [CHR 0x0A] @ horaText @ [CHR 0x0A] @ localText)"

definition hover_title_of :: "evento \<Rightarrow> string" where
  "hover_title_of evento =
     titulo evento @ '' - '' @ str_or (hora evento) ''S/ hora'' @ '' - ''
       @ str_or (local evento) ''S/ local''"

definition day_cell :: "evento list \<Rightarrow> year_month \<Rightarrow> int \<Rightarrow> js_error + element" where
  "day_cell evs ym day =
     (let dayDiv = set_textContent (String_of_int day) (set_className [''day-cell''] (createElement ''div''));
          dateStr = dateStr_of ym day;
          eventosDoDay = Array_filter evs (\<lambda>e. data e = dateStr)
      in case eventosDoDay of
           [] \<Rightarrow> Inr dayDiv
         | evento # _ \<Rightarrow>
             (let cssClass = or_default (obj_get categoryCssClasses (categoria evento)) ''sematividade''
              in case classList_add ''has-event'' cssClass dayDiv of
                   Inl err \<Rightarrow> Inl err
                 | Inr dayDiv1 \<Rightarrow>
                     Inr (set_title (hover_title_of evento)
                           (set_dataTooltip (tooltip_of evento)
                             (set_backgroundColor
                               (or_default (obj_get categoryColors (categoria evento)) ''#999'')
                               dayDiv1)))))"

text \<open>The loop over the days of the month; an exception leaves it.\<close>

fun append_days ::
  "evento list \<Rightarrow> year_month \<Rightarrow> element \<Rightarrow> int list \<Rightarrow> js_error + element" where
  "append_days evs ym gridDiv [] = Inr gridDiv"
| "append_days evs ym gridDiv (day # days) =
     (case day_cell evs ym day of
        Inl err \<Rightarrow> Inl err
      | Inr dayDiv \<Rightarrow> append_days evs ym (appendChild gridDiv dayDiv) days)"

definition header_cell :: "string \<Rightarrow> element" where
  "header_cell day = set_textContent day (set_className [''day-header''] (createElement ''div''))"

definition empty_cell :: element where
  "empty_cell = set_className [''day-cell'', ''empty''] (createElement ''div'')"

definition calendar_grid :: "runtime \<Rightarrow> evento list \<Rightarrow> year_month \<Rightarrow> js_error + element" where
  "calendar_grid rt evs ym =
     (let gridDiv = set_className [''calendar-grid''] (createElement ''div'');
          gridDiv1 = foldl (\<lambda>g day. appendChild g (header_cell day)) gridDiv dayHeaders;
          firstDay = firstDay_of rt ym;
          daysInMonth = daysInMonth_of rt ym;
          gridDiv2 = foldl (\<lambda>g i. appendChild g empty_cell) gridDiv1 [0 ..< nat (loop_bound firstDay)]
      in append_days evs ym gridDiv2 [1 .. loop_bound daysInMonth])"

definition calendar_block :: "runtime \<Rightarrow> evento list \<Rightarrow> year_month \<Rightarrow> js_error + element" where
  "calendar_block rt evs ym =
     (let calendarDiv = set_className [''calendar''] (createElement ''div'');
          monthName = toLocaleString_month_year (LocalTZA rt)
                        (Date_local (LocalTZA rt) (ToNumber (fst ym)) (ToNumber (snd ym) - 1) 1);
          titleDiv = set_textContent (capitalize monthName)
                       (set_className [''calendar-title''] (createElement ''div''));
          calendarDiv1 = appendChild calendarDiv titleDiv
      in case calendar_grid rt evs ym of
           Inl err \<Rightarrow> Inl err
         | Inr gridDiv \<Rightarrow> Inr (appendChild calendarDiv1 gridDiv))"

text \<open>The loop over the months: a block is appended to the container when it is complete,
  and an exception leaves the container with the blocks appended so far.\<close>

fun render_months ::
  "runtime \<Rightarrow> evento list \<Rightarrow> element list \<Rightarrow> year_month list \<Rightarrow> element list \<times> js_error option" where
  "render_months rt evs container [] = (container, None)"
| "render_months rt evs container (ym # yms) =
     (case calendar_block rt evs ym of
        Inl err \<Rightarrow> (container, Some err)
      | Inr calendarDiv \<Rightarrow> render_months rt evs (container @ [calendarDiv]) yms)"

text \<open>The result is the new state and the exception thrown, if any.\<close>

definition renderCalendars :: "runtime \<Rightarrow> state \<Rightarrow> state \<times> js_error option" where
  "renderCalendars rt st =
     (let months = getMonthsWithEvents rt st;
          r = render_months rt (allEventos st) [] months
      in (st\<lparr>calendars_container := fst r\<rparr>, snd r))"

subsection \<open>loadData and the filter buttons\<close>

text \<open>The outcome of \<open>fetch('/api/data')\<close> and \<open>response.json()\<close>: the request fails, the
  body is not JSON, or the body is an object with an optional array \<open>eventos\<close> and an
  optional object \<open>config\<close>.\<close>

record config =
  config_local :: "string option"
  config_contact :: "string option"
  config_logo :: "string option"

record payload =
  data_eventos :: "evento list option"
  data_config :: "config option"

datatype response = FetchFails | BodyNotJson | Body payload

definition apply_config :: "config option \<Rightarrow> state \<Rightarrow> state" where
  "apply_config cfg st =
     (case cfg of
        None \<Rightarrow> st
      | Some c \<Rightarrow>
          (let st1 = st\<lparr>local_info := str_or (config_local c)
                                 (''Rua Jos'' @ [CHR 0xC3, CHR 0xA9] @ '' Pereira Liberato, 1178''),
                        contact_info := str_or (config_contact c) ''(47) 99286-0936 (Arthur Ayad)''\<rparr>
           in if truthy (config_logo c) \<and> logo_src st1 \<noteq> None
              then st1\<lparr>logo_src := Some (str_or (config_logo c) [])\<rparr> else st1))"

text \<open>The body of the \<open>try\<close>: the state it leaves and the exception that ends it, if any.\<close>

definition loadData_try :: "runtime \<Rightarrow> response \<Rightarrow> state \<Rightarrow> state \<times> js_error option" where
  "loadData_try rt r st =
     (case r of
        FetchFails \<Rightarrow> (st, Some NetworkError)
      | BodyNotJson \<Rightarrow> (st, Some SyntaxError)
      | Body d \<Rightarrow>
          (let st1 = st\<lparr>allEventos := (case data_eventos d of None \<Rightarrow> [] | Some evs \<Rightarrow> evs)\<rparr>;
               st2 = apply_config (data_config d) st1;
               rc = renderCalendars rt st2
           in case snd rc of
                Some err \<Rightarrow> (fst rc, Some err)
              | None \<Rightarrow> (renderEventsList rt (fst rc), None)))"

text \<open>\<open>loadData\<close>: the \<open>catch\<close> logs the exception. The second component is the exception
  that reaches the caller.\<close>

definition loadData :: "runtime \<Rightarrow> response \<Rightarrow> state \<Rightarrow> state \<times> js_error option" where
  "loadData rt r st =
     (case loadData_try rt r st of
        (st', None) \<Rightarrow> (st', None)
      | (st', Some err) \<Rightarrow> (st'\<lparr>console := console st' @ [err]\<rparr>, None))"

text \<open>A click on a filter button whose \<open>data-filter\<close> is \<open>f\<close>.\<close>

definition click_filter :: "runtime \<Rightarrow> string \<Rightarrow> state \<Rightarrow> state" where
  "click_filter rt f st = renderEventsList rt (st\<lparr>currentFilter := f\<rparr>)"

subsection \<open>Example data\<close>

definition festa :: evento where
  "festa = \<lparr>data = ''2026-03-15'', titulo = ''Festa'', categoria = ''Feriado'',
            hora = None, local = None\<rparr>"

definition sessao :: evento where
  "sessao = \<lparr>data = ''2026-03-15'', titulo = ''Sessao'', categoria = ''Estadual'',
             hora = Some ''20:00'', local = Some ''Templo''\<rparr>"

definition posse :: evento where
  "posse = \<lparr>data = ''2027-03-02'', titulo = ''Posse'', categoria = ''Desconhecida'',
            hora = None, local = None\<rparr>"

definition ano_novo :: evento where
  "ano_novo = \<lparr>data = ''2026-01-01'', titulo = ''Ano Novo'', categoria = ''Feriado'',
               hora = None, local = None\<rparr>"

definition carnaval :: evento where
  "carnaval = \<lparr>data = ''2026-02-17'', titulo = ''Carnaval'', categoria = ''Feriado'',
               hora = None, local = None\<rparr>"

text \<open>An event whose category names a member of \<open>Object.prototype\<close>.\<close>

definition intruso :: evento where
  "intruso = \<lparr>data = ''2026-03-20'', titulo = ''Intruso'', categoria = ''constructor'',
              hora = None, local = None\<rparr>"



text \<open>Two events on the first day of a month.\<close>

definition abertura :: evento where
  "abertura = \<lparr>data = ''2026-03-01'', titulo = ''Abertura'', categoria = ''Estadual'',
               hora = Some ''19:00'', local = Some ''Templo''\<rparr>"

definition jantar :: evento where
  "jantar = \<lparr>data = ''2026-03-01'', titulo = ''Jantar'', categoria = ''Entretenimento'',
             hora = Some ''21:00'', local = None\<rparr>"

text \<open>An event of unknown category later in the month of \<open>intruso\<close>.\<close>

definition visita :: evento where
  "visita = \<lparr>data = ''2026-03-25'', titulo = ''Visita'', categoria = ''Desconhecida'',
             hora = None, local = None\<rparr>"



text \<open>A browser in UTC and one in Sao Paulo (three hours west of UTC). The examples have
  dates in the date-only form and comparators that are consistent on them, so none of them
  reaches the other three parameters; these are set to a parser that refuses the string and
  a \<open>sort\<close> that leaves the array as it is.\<close>

definition utc :: runtime where
  "utc = \<lparr>LocalTZA = 0, Date_parse_other = (\<lambda>s. None), sort_keys_other = (\<lambda>xs. xs),
           sort_months_other = (\<lambda>xs. xs)\<rparr>"

definition sao_paulo :: runtime where
  "sao_paulo = utc\<lparr>LocalTZA := - 10800000\<rparr>"

definition page :: "evento list \<Rightarrow> string \<Rightarrow> state" where
  "page evs f = \<lparr>allEventos = evs, currentFilter = f, eventos_container = [],
                  calendars_container = [], local_info = [], contact_info = [],
                  logo_src = Some [], console = []\<rparr>"

subsection \<open>Notions for the properties\<close>

text \<open>What the loop of \<open>groupEventosByMonth\<close> keeps true of \<open>grouped\<close> and the events
  read so far.\<close>

definition grouped_inv :: "runtime \<Rightarrow> (string \<times> evento list) list \<Rightarrow> evento list \<Rightarrow> bool" where
  "grouped_inv rt g evs \<longleftrightarrow>
     distinct (map fst g) \<and>
     fst ` set g = monthName_of rt ` set evs \<and>
     (\<forall>p \<in> set g. snd p = filter (\<lambda>e. monthName_of rt e = fst p) evs) \<and>
     mset (concat (map snd g)) = mset evs"

text \<open>The cell of a day without an event.\<close>

definition plain_day :: "int \<Rightarrow> element" where
  "plain_day day = Element ''div'' [''day-cell''] (String_of_int day) [] None [] []"

text \<open>The three kinds of cell of a grid, told apart by their classes.\<close>

definition is_blank_cell :: "element \<Rightarrow> bool" where
  "is_blank_cell c \<longleftrightarrow> classList c = [''day-cell'', ''empty'']"

definition is_day_cell :: "element \<Rightarrow> bool" where
  "is_day_cell c \<longleftrightarrow> ''day-cell'' \<in> set (classList c) \<and> \<not> is_blank_cell c"

definition is_header_cell :: "element \<Rightarrow> bool" where
  "is_header_cell c \<longleftrightarrow> classList c = [''day-header'']"

text \<open>The heading of a month group and the rows under it.\<close>

definition group_title :: "element \<Rightarrow> string" where
  "group_title g = (case children g of [] \<Rightarrow> [] | h # _ \<Rightarrow> textContent h)"

definition group_rows :: "element \<Rightarrow> element list" where
  "group_rows g = (case children g of [] \<Rightarrow> [] | _ # rows \<Rightarrow> rows)"

text \<open>The titles a month group can have, in the order of \<open>meses.indexOf\<close>: \<open>Invalid Date\<close>
  has index \<open>-1\<close>.\<close>

definition month_titles :: "string list" where
  "month_titles = ''Invalid Date'' # meses"

text \<open>The classes of an element and of everything below it.\<close>

fun subtree_classes :: "element \<Rightarrow> string list" where
  "subtree_classes (Element tg cs tx bg tt ti ch) = cs @ concat (map subtree_classes ch)"

text \<open>The weekday of day \<open>d\<close> of month \<open>m\<close> (1 to 12) of year \<open>y\<close> in the Gregorian
  calendar, Sunday 0, by the congruence of Sakamoto's method: no day number and no \<open>Date\<close>
  enters it.\<close>

definition weekday_of_date :: "int \<Rightarrow> int \<Rightarrow> int \<Rightarrow> int" where
  "weekday_of_date y m d =
     (let y' = (if m < 3 then y - 1 else y);
          t = [0, 3, 2, 5, 0, 3, 5, 1, 4, 6, 2, 4] ! nat (m - 1)
      in (y' + y' div 4 - y' div 100 + y' div 400 + t + d) mod 7)"

text \<open>The cells of a grid that carry an event.\<close>

definition has_event :: "element \<Rightarrow> bool" where
  "has_event c \<longleftrightarrow> ''has-event'' \<in> set (classList c)"

text \<open>The title of a calendar block and the cells of its grid; how many of the cells are
  blank, and which carry an event.\<close>

definition block_title :: "element \<Rightarrow> string" where
  "block_title b = (case children b of [] \<Rightarrow> [] | titleDiv # _ \<Rightarrow> textContent titleDiv)"

definition block_cells :: "element \<Rightarrow> element list" where
  "block_cells b = (case children b of [titleDiv, gridDiv] \<Rightarrow> children gridDiv | _ \<Rightarrow> [])"


definition cell_count :: "element \<Rightarrow> nat" where
  "cell_count b = length (block_cells b)"

definition event_cells :: "element \<Rightarrow> element list" where
  "event_cells b = filter has_event (block_cells b)"

text \<open>The first event of a list with the date string of a day of a month.\<close>

definition first_match :: "evento list \<Rightarrow> year_month \<Rightarrow> int \<Rightarrow> evento option" where
  "first_match evs ym day = find (\<lambda>e. data e = dateStr_of ym day) evs"

text \<open>The year and the month written in the date string of an event.\<close>

definition written_month :: "evento \<Rightarrow> year_month" where
  "written_month e =
     (case date_only (data e) of None \<Rightarrow> (None, None) | Some (y, m, d) \<Rightarrow> (Some y, Some m))"

text \<open>The order by year, then by month.\<close>

definition ym_before :: "year_month \<Rightarrow> year_month \<Rightarrow> bool" where
  "ym_before a b \<longleftrightarrow>
     ToNumber (fst a) < ToNumber (fst b) \<or>
     (ToNumber (fst a) = ToNumber (fst b) \<and> ToNumber (snd a) < ToNumber (snd b))"

definition ym_key :: "year_month \<Rightarrow> int \<times> int" where
  "ym_key a = (ToNumber (fst a), ToNumber (snd a))"

section \<open>Properties\<close>

subsection \<open>Month grouping\<close>

lemma map_of_None_iff: "map_of g k = None \<longleftrightarrow> k \<notin> fst ` set g"
  by (simp add: map_of_eq_None_iff)

lemma obj_put_fresh: "k \<notin> fst ` set g \<Longrightarrow> obj_put g k v = g @ [(k, v)]"
  by (induction g) auto

lemma obj_push_fresh: "k \<notin> fst ` set g \<Longrightarrow> obj_push (g @ [(k, xs)]) k x = g @ [(k, xs @ [x])]"
  by (induction g) auto

lemma fst_obj_push: "map fst (obj_push g k x) = map fst g"
  by (induction g) auto

lemma set_obj_push:
  "distinct (map fst g) \<Longrightarrow>
   set (obj_push g k x) = (\<lambda>p. if fst p = k then (fst p, snd p @ [x]) else p) ` set g"
proof (induction g)
  case Nil
  then show ?case by simp
next
  case (Cons p g)
  have "fst p = k \<Longrightarrow> (\<lambda>p. if fst p = k then (fst p, snd p @ [x]) else p) ` set g = set g"
    using Cons.prems by (force simp: image_iff)
  then show ?case using Cons by (cases p) auto
qed

lemma mset_concat_obj_push:
  "k \<in> fst ` set g \<Longrightarrow>
   mset (concat (map snd (obj_push g k x))) = add_mset x (mset (concat (map snd g)))"
proof (induction g)
  case Nil
  then show ?case by simp
next
  case (Cons p g)
  obtain k' xs where p: "p = (k', xs)" by (cases p)
  show ?case
  proof (cases "k' = k")
    case True
    then show ?thesis by (simp add: p)
  next
    case False
    then have "k \<in> fst ` set g" using Cons.prems p by auto
    then show ?thesis using Cons.IH False by (simp add: p)
  qed
qed

lemma group_step_fresh:
  "monthName_of rt e \<notin> fst ` set g \<Longrightarrow> group_step rt g e = g @ [(monthName_of rt e, [e])]"
  using obj_push_fresh [of "monthName_of rt e" g "[]" e]
  by (simp add: group_step_def Let_def map_of_None_iff obj_put_fresh)

lemma group_step_old:
  "monthName_of rt e \<in> fst ` set g \<Longrightarrow> group_step rt g e = obj_push g (monthName_of rt e) e"
  by (simp add: group_step_def Let_def map_of_None_iff)

lemma grouped_inv_step:
  assumes "grouped_inv rt g evs"
  shows "grouped_inv rt (group_step rt g e) (evs @ [e])"
proof -
  let ?k = "monthName_of rt e"
  from assms have d: "distinct (map fst g)"
    and ks: "fst ` set g = monthName_of rt ` set evs"
    and gs: "\<And>p. p \<in> set g \<Longrightarrow> snd p = filter (\<lambda>e. monthName_of rt e = fst p) evs"
    and ms: "mset (concat (map snd g)) = mset evs"
    by (simp_all add: grouped_inv_def)
  show ?thesis
  proof (cases "?k \<in> fst ` set g")
    case True
    have s: "group_step rt g e = obj_push g ?k e"
      by (rule group_step_old [OF True])
    have 1: "distinct (map fst (group_step rt g e))"
      by (simp add: s fst_obj_push d)
    have "set (map fst (group_step rt g e)) = set (map fst g)"
      by (simp only: s fst_obj_push)
    then have "fst ` set (group_step rt g e) = fst ` set g"
      by simp
    then have 2: "fst ` set (group_step rt g e) = monthName_of rt ` set (evs @ [e])"
      using True ks by auto
    have 3: "snd p = filter (\<lambda>e. monthName_of rt e = fst p) (evs @ [e])"
      if "p \<in> set (group_step rt g e)" for p
    proof -
      from that have "p \<in> (\<lambda>p. if fst p = ?k then (fst p, snd p @ [e]) else p) ` set g"
        by (simp add: s set_obj_push [OF d])
      then obtain q where q: "q \<in> set g"
        and p: "p = (if fst q = ?k then (fst q, snd q @ [e]) else q)"
        by (rule imageE)
      show ?thesis using gs [OF q] by (auto simp: p)
    qed
    have 4: "mset (concat (map snd (group_step rt g e))) = mset (evs @ [e])"
      using True by (simp add: s mset_concat_obj_push ms)
    show ?thesis
      unfolding grouped_inv_def by (intro conjI ballI 1 2 3 4)
  next
    case False
    have s: "group_step rt g e = g @ [(?k, [e])]"
      by (rule group_step_fresh [OF False])
    have "monthName_of rt x \<noteq> ?k" if "x \<in> set evs" for x
      using False that unfolding ks by (metis imageI)
    then have f: "filter (\<lambda>x. monthName_of rt x = ?k) evs = []"
      by (simp add: filter_empty_conv)
    have 3: "snd p = filter (\<lambda>e. monthName_of rt e = fst p) (evs @ [e])"
      if "p \<in> set (group_step rt g e)" for p
    proof (cases "p \<in> set g")
      case True
      then have "fst p \<noteq> ?k" using False by (metis imageI)
      then show ?thesis using gs [OF True] by auto
    next
      case False
      then have "p = (?k, [e])" using that s by auto
      then show ?thesis using f by simp
    qed
    have 1: "distinct (map fst (group_step rt g e))"
      using d False by (simp add: s)
    have 2: "fst ` set (group_step rt g e) = monthName_of rt ` set (evs @ [e])"
      using ks by (auto simp: s)
    have 4: "mset (concat (map snd (group_step rt g e))) = mset (evs @ [e])"
      by (simp add: s ms)
    show ?thesis
      unfolding grouped_inv_def by (intro conjI ballI 1 2 3 4)
  qed
qed

lemma grouped_inv_groupEventosByMonth: "grouped_inv rt (groupEventosByMonth rt evs) evs"
proof (induction evs rule: rev_induct)
  case Nil
  show ?case by (simp add: groupEventosByMonth_def grouped_inv_def)
next
  case (snoc e evs)
  then show ?case
    using grouped_inv_step [of rt "groupEventosByMonth rt evs" evs e]
    by (simp add: groupEventosByMonth_def)
qed

text \<open>
  C1. \<open>groupEventosByMonth\<close> partitions its input: the keys are distinct and are exactly the
  month names of the input events, so no month without an event is a key; no group is
  empty; the group of a key holds exactly the input events of that month, in their order
  in the input; every input event is in exactly one group; and the groups together are the
  input as a multiset.
\<close>

theorem groupEventosByMonth_partition:
  "distinct (map fst (groupEventosByMonth rt evs)) \<and>
   fst ` set (groupEventosByMonth rt evs) = monthName_of rt ` set evs \<and>
   (\<forall>p \<in> set (groupEventosByMonth rt evs).
      snd p \<noteq> [] \<and> snd p = filter (\<lambda>e. monthName_of rt e = fst p) evs) \<and>
   (\<forall>e \<in> set evs. \<exists>!p. p \<in> set (groupEventosByMonth rt evs) \<and> e \<in> set (snd p)) \<and>
   mset (concat (map snd (groupEventosByMonth rt evs))) = mset evs"
proof -
  let ?g = "groupEventosByMonth rt evs"
  have inv: "grouped_inv rt ?g evs"
    by (rule grouped_inv_groupEventosByMonth)
  then have d: "distinct (map fst ?g)"
    and ks: "fst ` set ?g = monthName_of rt ` set evs"
    and gs: "\<And>p. p \<in> set ?g \<Longrightarrow> snd p = filter (\<lambda>e. monthName_of rt e = fst p) evs"
    and ms: "mset (concat (map snd ?g)) = mset evs"
    by (simp_all add: grouped_inv_def)
  have ne: "snd p \<noteq> []" if "p \<in> set ?g" for p
  proof -
    from that have "fst p \<in> monthName_of rt ` set evs"
      unfolding ks [symmetric] by (rule imageI)
    then obtain e where "e \<in> set evs" "monthName_of rt e = fst p"
      by auto
    then show ?thesis using gs [OF that] by (auto simp: filter_empty_conv)
  qed
  have ex1: "\<exists>!p. p \<in> set ?g \<and> e \<in> set (snd p)" if e: "e \<in> set evs" for e
  proof -
    from e have "monthName_of rt e \<in> fst ` set ?g"
      unfolding ks by (rule imageI)
    then obtain p where p: "p \<in> set ?g" "fst p = monthName_of rt e"
      by auto
    have "e \<in> set (snd p)" using gs [OF p(1)] p(2) e by simp
    moreover have "q = p" if "q \<in> set ?g" "e \<in> set (snd q)" for q
    proof -
      have "fst q = monthName_of rt e" using gs [OF that(1)] that(2) by simp
      then have "fst q = fst p" using p by simp
      moreover have "snd q = snd p" using gs [OF that(1)] gs [OF p(1)] calculation by simp
      ultimately show ?thesis by (simp add: prod_eq_iff)
    qed
    ultimately show ?thesis using p(1) by blast
  qed
  show ?thesis
    by (intro conjI ballI d ks gs ne ex1 ms)
qed

theorem groupEventosByMonth_partition_witness:
  "groupEventosByMonth utc [festa, ano_novo, sessao] =
     [(''Mar'' @ [CHR 0xC3, CHR 0xA7] @ ''o'', [festa, sessao]), (''Janeiro'', [ano_novo])] \<and>
   mset (concat (map snd (groupEventosByMonth utc [festa, ano_novo, sessao]))) =
     mset [festa, ano_novo, sessao] \<and>
   distinct (map fst (groupEventosByMonth utc [festa, ano_novo, sessao]))"
proof -
  have "groupEventosByMonth utc [festa, ano_novo, sessao] =
     [(''Mar'' @ [CHR 0xC3, CHR 0xA7] @ ''o'', [festa, sessao]), (''Janeiro'', [ano_novo])]"
    by code_simp
  then show ?thesis
    using groupEventosByMonth_partition [of utc "[festa, ano_novo, sessao]"] by simp
qed

subsection \<open>Filtering\<close>

lemma filter_loop_eq: "filter_loop p acc xs = acc @ filter p xs"
  by (induction xs arbitrary: acc) auto

lemma Array_filter_eq: "Array_filter xs p = filter p xs"
  by (simp add: Array_filter_def filter_loop_eq)

text \<open>
  C2. With the filter \<open>Todas\<close>, \<open>getFilteredEventos\<close> returns the whole event list as it is;
  with any other filter value it returns exactly the events whose category equals the
  value as a string, in input order. Equality of strings is exact: \<open>feriado\<close> and \<open>Feri\<close>
  select no event of category \<open>Feriado\<close>.
\<close>

theorem getFilteredEventos_spec:
  "(currentFilter st = ''Todas'' \<longrightarrow> getFilteredEventos st = allEventos st) \<and>
   (currentFilter st \<noteq> ''Todas'' \<longrightarrow>
      getFilteredEventos st = filter (\<lambda>e. categoria e = currentFilter st) (allEventos st) \<and>
      set (getFilteredEventos st) = {e \<in> set (allEventos st). categoria e = currentFilter st}) \<and>
   subseq (getFilteredEventos st) (allEventos st)"
proof (cases "currentFilter st = ''Todas''")
  case True
  then have "getFilteredEventos st = allEventos st"
    by (simp add: getFilteredEventos_def)
  then show ?thesis
    using True by simp
next
  case False
  then have f: "getFilteredEventos st = filter (\<lambda>e. categoria e = currentFilter st) (allEventos st)"
    by (simp add: getFilteredEventos_def Array_filter_eq)
  have "set (getFilteredEventos st) = {e \<in> set (allEventos st). categoria e = currentFilter st}"
    unfolding f by auto
  moreover have "subseq (getFilteredEventos st) (allEventos st)"
    unfolding f by simp
  ultimately show ?thesis
    using False f by simp
qed

theorem getFilteredEventos_spec_witness:
  "currentFilter (page [festa, sessao, posse, ano_novo] ''Todas'') = ''Todas'' \<and>
   getFilteredEventos (page [festa, sessao, posse, ano_novo] ''Todas'') = [festa, sessao, posse, ano_novo] \<and>
   currentFilter (page [festa, sessao, posse, ano_novo] ''Feriado'') \<noteq> ''Todas'' \<and>
   getFilteredEventos (page [festa, sessao, posse, ano_novo] ''Feriado'') = [festa, ano_novo] \<and>
   getFilteredEventos (page [festa, sessao, posse, ano_novo] ''feriado'') = [] \<and>
   getFilteredEventos (page [festa, sessao, posse, ano_novo] ''Feri'') = []"
  using getFilteredEventos_spec [of "page [festa, sessao, posse, ano_novo] ''Todas''"]
    getFilteredEventos_spec [of "page [festa, sessao, posse, ano_novo] ''Feriado''"]
    getFilteredEventos_spec [of "page [festa, sessao, posse, ano_novo] ''feriado''"]
    getFilteredEventos_spec [of "page [festa, sessao, posse, ano_novo] ''Feri''"]
  by (simp add: page_def festa_def sessao_def posse_def ano_novo_def)

subsection \<open>A failed load\<close>

text \<open>
  C7. When the request fails or the body is not JSON, \<open>loadData\<close> passes no exception to its
  caller and changes nothing but the console, which gets the error: the event list, the
  filter and both containers are as before.
\<close>

theorem loadData_failure:
  assumes "r = FetchFails \<or> r = BodyNotJson"
  shows "snd (loadData rt r st) = None \<and>
         fst (loadData rt r st) =
           st\<lparr>console := console st @ [if r = FetchFails then NetworkError else SyntaxError]\<rparr> \<and>
         allEventos (fst (loadData rt r st)) = allEventos st \<and>
         currentFilter (fst (loadData rt r st)) = currentFilter st \<and>
         eventos_container (fst (loadData rt r st)) = eventos_container st \<and>
         calendars_container (fst (loadData rt r st)) = calendars_container st"
  using assms by (auto simp: loadData_def loadData_try_def)

theorem loadData_failure_witness:
  "(FetchFails = FetchFails \<or> FetchFails = BodyNotJson) \<and>
   loadData utc FetchFails (page [festa] ''Todas'') =
     ((page [festa] ''Todas'')\<lparr>console := [NetworkError]\<rparr>, None) \<and>
   loadData utc BodyNotJson (page [festa] ''Todas'') =
     ((page [festa] ''Todas'')\<lparr>console := [SyntaxError]\<rparr>, None)"
  using loadData_failure [of FetchFails utc "page [festa] ''Todas''"]
    loadData_failure [of BodyNotJson utc "page [festa] ''Todas''"]
  by (simp add: prod_eq_iff page_def)

subsection \<open>Rendering twice\<close>

text \<open>
  C9. Each renderer rebuilds its container from the event list and the filter alone: a
  second call on the state the first call left gives the same state (and, for
  \<open>renderCalendars\<close>, the same exception if any), and what the container held before the
  call does not matter.
\<close>

theorem render_idempotent:
  "renderEventsList rt (renderEventsList rt st) = renderEventsList rt st \<and>
   renderEventsList rt (st\<lparr>eventos_container := c\<rparr>) = renderEventsList rt st \<and>
   renderCalendars rt (fst (renderCalendars rt st)) = renderCalendars rt st \<and>
   renderCalendars rt (st\<lparr>calendars_container := c\<rparr>) = renderCalendars rt st"
  by (simp add: renderEventsList_def renderCalendars_def getMonthsWithEvents_def
      getFilteredEventos_def Let_def)

subsection \<open>The calendar grid\<close>

lemma children_appendChild [simp]: "children (appendChild e c) = children e @ [c]"
  by (cases e) simp

lemma classList_appendChild [simp]: "classList (appendChild e c) = classList e"
  by (cases e) simp

lemma children_foldl_appendChild:
  "children (foldl (\<lambda>g x. appendChild g (f x)) e xs) = children e @ map f xs"
  by (induction xs arbitrary: e) simp_all

lemma classList_foldl_appendChild:
  "classList (foldl (\<lambda>g x. appendChild g (f x)) e xs) = classList e"
  by (induction xs arbitrary: e) simp_all

lemma case_filter_find:
  "(case filter p xs of [] \<Rightarrow> a | x # _ \<Rightarrow> f x) = (case find p xs of None \<Rightarrow> a | Some x \<Rightarrow> f x)"
  by (induction xs) simp_all

lemma set_title_tooltip_background:
  "set_title t (set_dataTooltip tt (set_backgroundColor v (Element tg cs tx bg0 tt0 ti0 ch))) =
   set_backgroundColor v (Element tg cs tx bg0 (Some tt) t ch)"
  by (cases v) simp_all

lemma day_cell_find:
  "day_cell evs ym day =
     (case find (\<lambda>e. data e = dateStr_of ym day) evs of
        None \<Rightarrow> Inr (plain_day day)
      | Some evento \<Rightarrow>
          (case or_default (obj_get categoryCssClasses (categoria evento)) ''sematividade'' of
             JInherited k \<Rightarrow> Inl InvalidCharacterError
           | JStr cls \<Rightarrow>
               Inr (set_backgroundColor (or_default (obj_get categoryColors (categoria evento)) ''#999'')
                     (Element ''div'' [''day-cell'', ''has-event'', cls] (String_of_int day) []
                        (Some (tooltip_of evento)) (hover_title_of evento) []))))"
proof -
  have "day_cell evs ym day =
     (case filter (\<lambda>e. data e = dateStr_of ym day) evs of
        [] \<Rightarrow> Inr (plain_day day)
      | evento # _ \<Rightarrow>
          (case or_default (obj_get categoryCssClasses (categoria evento)) ''sematividade'' of
             JInherited k \<Rightarrow> Inl InvalidCharacterError
           | JStr cls \<Rightarrow>
               Inr (set_backgroundColor (or_default (obj_get categoryColors (categoria evento)) ''#999'')
                     (Element ''div'' [''day-cell'', ''has-event'', cls] (String_of_int day) []
                        (Some (tooltip_of evento)) (hover_title_of evento) []))))"
    unfolding day_cell_def Let_def Array_filter_eq plain_day_def createElement_def
    by (simp add: set_title_tooltip_background split: list.split jsval.split)
  then show ?thesis by (simp only: case_filter_find)
qed

lemma classList_set_backgroundColor [simp]: "classList (set_backgroundColor v e) = classList e"
  by (cases v; cases e) simp_all

lemma day_cell_classList:
  assumes "day_cell evs ym day = Inr c"
  shows "classList c = [''day-cell''] \<or> (\<exists>cls. classList c = [''day-cell'', ''has-event'', cls])"
  using assms unfolding day_cell_find plain_day_def
  by (auto split: option.splits jsval.splits)

lemma day_cell_kind:
  assumes "day_cell evs ym day = Inr c"
  shows "is_day_cell c \<and> \<not> is_blank_cell c \<and> \<not> is_header_cell c"
  using day_cell_classList [OF assms]
  by (auto simp: is_day_cell_def is_blank_cell_def is_header_cell_def)

lemma empty_cell_kind: "is_blank_cell empty_cell \<and> \<not> is_day_cell empty_cell \<and> \<not> is_header_cell empty_cell"
  by (simp add: is_day_cell_def is_blank_cell_def is_header_cell_def empty_cell_def createElement_def)

lemma header_cell_kind: "is_header_cell (header_cell d) \<and> \<not> is_day_cell (header_cell d) \<and> \<not> is_blank_cell (header_cell d)"
  by (simp add: is_day_cell_def is_blank_cell_def is_header_cell_def header_cell_def createElement_def)

lemma append_days_children:
  assumes "append_days evs ym g days = Inr g'"
  shows "\<exists>cells. children g' = children g @ cells \<and>
           list_all2 (\<lambda>d c. day_cell evs ym d = Inr c) days cells"
  using assms
proof (induction days arbitrary: g)
  case Nil
  then show ?case by simp
next
  case (Cons d days)
  from Cons.prems obtain c where c: "day_cell evs ym d = Inr c"
    and r: "append_days evs ym (appendChild g c) days = Inr g'"
    by (auto split: sum.splits)
  from Cons.IH [OF r] obtain cells where
    "children g' = children (appendChild g c) @ cells"
    "list_all2 (\<lambda>d c. day_cell evs ym d = Inr c) days cells"
    by blast
  then have "children g' = children g @ (c # cells) \<and>
      list_all2 (\<lambda>d c. day_cell evs ym d = Inr c) (d # days) (c # cells)"
    using c by simp
  then show ?case by blast
qed

lemma calendar_grid_children:
  assumes "calendar_grid rt evs ym = Inr gridDiv"
  shows "\<exists>cells. children gridDiv =
           map header_cell dayHeaders
           @ replicate (nat (loop_bound (firstDay_of rt ym))) empty_cell @ cells \<and>
         list_all2 (\<lambda>d c. day_cell evs ym d = Inr c) [1 .. loop_bound (daysInMonth_of rt ym)] cells"
proof -
  let ?g1 = "foldl (\<lambda>g day. appendChild g (header_cell day))
               (set_className [''calendar-grid''] (createElement ''div'')) dayHeaders"
  let ?n = "nat (loop_bound (firstDay_of rt ym))"
  let ?g2 = "foldl (\<lambda>g i. appendChild g empty_cell) ?g1 [0 ..< ?n]"
  have 1: "children ?g1 = map header_cell dayHeaders"
    by (simp add: children_foldl_appendChild createElement_def)
  have 2: "children ?g2 = map header_cell dayHeaders @ replicate ?n empty_cell"
    using children_foldl_appendChild [of "\<lambda>i. empty_cell" ?g1 "[0 ..< ?n]"]
    by (simp add: 1 map_replicate_const)
  from assms have "append_days evs ym ?g2 [1 .. loop_bound (daysInMonth_of rt ym)] = Inr gridDiv"
    by (simp add: calendar_grid_def Let_def)
  from append_days_children [OF this] show ?thesis
    by (simp add: 2)
qed

lemma length_upto_1: "length [1 .. n] = nat n"
  by simp

lemma calendar_grid_counts:
  assumes "calendar_grid rt evs ym = Inr gridDiv"
  shows "length (filter is_header_cell (children gridDiv)) = 7"
    and "length (filter is_blank_cell (children gridDiv)) = nat (loop_bound (firstDay_of rt ym))"
    and "length (filter is_day_cell (children gridDiv)) = nat (loop_bound (daysInMonth_of rt ym))"
    and "length (children gridDiv) =
           7 + nat (loop_bound (firstDay_of rt ym)) + nat (loop_bound (daysInMonth_of rt ym))"
proof -
  from calendar_grid_children [OF assms] obtain cells where
    ch: "children gridDiv = map header_cell dayHeaders
           @ replicate (nat (loop_bound (firstDay_of rt ym))) empty_cell @ cells"
    and cs: "list_all2 (\<lambda>d c. day_cell evs ym d = Inr c) [1 .. loop_bound (daysInMonth_of rt ym)] cells"
    by blast
  have len: "length cells = nat (loop_bound (daysInMonth_of rt ym))"
    using list_all2_lengthD [OF cs] by simp
  have k: "is_day_cell c \<and> \<not> is_blank_cell c \<and> \<not> is_header_cell c" if "c \<in> set cells" for c
  proof -
    from that cs obtain d where "day_cell evs ym d = Inr c"
      by (auto simp: list_all2_conv_all_nth in_set_conv_nth)
    then show ?thesis by (rule day_cell_kind)
  qed
  have fd: "filter is_day_cell cells = cells" "filter is_blank_cell cells = []"
    "filter is_header_cell cells = []"
    using k by (simp_all add: filter_empty_conv)
  have fh: "filter is_header_cell (map header_cell dayHeaders) = map header_cell dayHeaders"
    "filter is_blank_cell (map header_cell dayHeaders) = []"
    "filter is_day_cell (map header_cell dayHeaders) = []"
    using header_cell_kind by (simp_all add: filter_empty_conv)
  have fe: "filter is_blank_cell (replicate n empty_cell) = replicate n empty_cell"
    "filter is_header_cell (replicate n empty_cell) = []"
    "filter is_day_cell (replicate n empty_cell) = []" for n
    using empty_cell_kind by (simp_all add: filter_empty_conv)
  have h7: "length dayHeaders = 7"
    by (simp add: dayHeaders_def)
  show "length (filter is_header_cell (children gridDiv)) = 7"
    by (simp add: ch fd fh fe h7)
  show "length (filter is_blank_cell (children gridDiv)) = nat (loop_bound (firstDay_of rt ym))"
    by (simp add: ch fd fh fe)
  show "length (filter is_day_cell (children gridDiv)) = nat (loop_bound (daysInMonth_of rt ym))"
    by (simp add: ch fd fh fe len)
  show "length (children gridDiv) =
           7 + nat (loop_bound (firstDay_of rt ym)) + nat (loop_bound (daysInMonth_of rt ym))"
    by (simp add: ch len h7)
qed

lemma calendar_block_children:
  assumes "calendar_block rt evs ym = Inr b"
  shows "\<exists>titleDiv gridDiv. children b = [titleDiv, gridDiv] \<and>
           calendar_grid rt evs ym = Inr gridDiv"
  using assms
  by (auto simp: calendar_block_def Let_def createElement_def split: sum.splits)

lemma render_months_blocks:
  assumes "render_months rt evs c yms = (c', err)"
  shows "\<exists>blocks. c' = c @ blocks \<and>
           list_all2 (\<lambda>ym b. calendar_block rt evs ym = Inr b) (take (length blocks) yms) blocks \<and>
           (err = None \<longrightarrow> length blocks = length yms)"
  using assms
proof (induction yms arbitrary: c)
  case Nil
  then show ?case by simp
next
  case (Cons ym yms)
  show ?case
  proof (cases "calendar_block rt evs ym")
    case (Inl e)
    then have "c' = c" "err = Some e" using Cons.prems by simp_all
    then show ?thesis by simp
  next
    case (Inr b)
    then have "render_months rt evs (c @ [b]) yms = (c', err)"
      using Cons.prems by simp
    from Cons.IH [OF this] obtain blocks where
      b: "c' = (c @ [b]) @ blocks"
      "list_all2 (\<lambda>ym b. calendar_block rt evs ym = Inr b) (take (length blocks) yms) blocks"
      "err = None \<longrightarrow> length blocks = length yms"
      by blast
    have "c' = c @ (b # blocks) \<and>
      list_all2 (\<lambda>ym b. calendar_block rt evs ym = Inr b)
        (take (length (b # blocks)) (ym # yms)) (b # blocks) \<and>
      (err = None \<longrightarrow> length (b # blocks) = length (ym # yms))"
      using b Inr by simp
    then show ?thesis by blast
  qed
qed


lemma Day_msPerDay: "Day (d * msPerDay) = d"
  by (simp add: Day_def msPerDay_def)

lemma Date_local_Some:
  assumes "\<not> (0 \<le> y \<and> y \<le> 99)"
    and "\<bar>MakeDay y m d * msPerDay - tza\<bar> \<le> 8640000000000000"
  shows "Date_local tza y m d = Some (MakeDay y m d * msPerDay - tza)"
proof -
  have "(if 0 \<le> y \<and> y \<le> 99 then 1900 + y else y) = y"
    using assms(1) by (rule if_not_P)
  then show ?thesis
    using assms(2) by (simp only: Date_local_def Let_def TimeClip_def if_True)
qed

lemma Date_local_getters:
  assumes "\<not> (0 \<le> y \<and> y \<le> 99)"
    and "\<bar>MakeDay y m d * msPerDay - tza\<bar> \<le> 8640000000000000"
  shows "getDay tza (Date_local tza y m d) = Some (WeekDay (MakeDay y m d))"
    and "getDate tza (Date_local tza y m d) = Some (DateFromDay (MakeDay y m d))"
    and "getMonth tza (Date_local tza y m d) = Some (MonthFromDay (MakeDay y m d))"
    and "getFullYear tza (Date_local tza y m d) = Some (YearFromDay (MakeDay y m d))"
  by (simp_all add: Date_local_Some [OF assms] getDay_def getDate_def getMonth_def
      getFullYear_def Day_msPerDay)

lemma obj_get_own:
  "k \<notin> set Object_prototype_keys \<Longrightarrow>
   obj_get tbl k = (case map_of tbl k of None \<Rightarrow> None | Some v \<Rightarrow> Some (JStr v))"
  by (simp add: obj_get_def split: option.split)

lemma or_default_own:
  "k \<notin> set Object_prototype_keys \<Longrightarrow> \<exists>s. or_default (obj_get tbl k) d = JStr s"
  by (simp add: obj_get_own or_default_def split: option.split)

lemma find_Some_set: "find p xs = Some x \<Longrightarrow> x \<in> set xs \<and> p x"
  by (induction xs) (auto split: if_splits)

lemma day_cell_ok:
  assumes "\<forall>e \<in> set evs. categoria e \<notin> set Object_prototype_keys"
  shows "\<exists>c. day_cell evs ym day = Inr c"
proof (cases "find (\<lambda>e. data e = dateStr_of ym day) evs")
  case None
  then show ?thesis by (simp add: day_cell_find)
next
  case (Some e)
  then have "categoria e \<notin> set Object_prototype_keys"
    using assms find_Some_set by fastforce
  from or_default_own [OF this] obtain s where
    "or_default (obj_get categoryCssClasses (categoria e)) ''sematividade'' = JStr s"
    by blast
  then show ?thesis by (simp add: day_cell_find Some)
qed

lemma append_days_ok:
  assumes "\<forall>e \<in> set evs. categoria e \<notin> set Object_prototype_keys"
  shows "\<exists>g'. append_days evs ym g days = Inr g'"
proof (induction days arbitrary: g)
  case Nil
  show ?case by simp
next
  case (Cons d days)
  from day_cell_ok [OF assms] obtain c where "day_cell evs ym d = Inr c"
    by blast
  then show ?case using Cons.IH by simp
qed

lemma calendar_block_ok:
  assumes "\<forall>e \<in> set evs. categoria e \<notin> set Object_prototype_keys"
  shows "\<exists>b. calendar_block rt evs ym = Inr b"
proof -
  obtain g where "calendar_grid rt evs ym = Inr g"
    unfolding calendar_grid_def Let_def using append_days_ok [OF assms] by blast
  then show ?thesis by (simp add: calendar_block_def Let_def)
qed

lemma render_months_ok:
  assumes "\<forall>e \<in> set evs. categoria e \<notin> set Object_prototype_keys"
  shows "\<exists>blocks. render_months rt evs c yms = (c @ blocks, None) \<and>
           list_all2 (\<lambda>ym b. calendar_block rt evs ym = Inr b) yms blocks"
proof (induction yms arbitrary: c)
  case Nil
  show ?case by simp
next
  case (Cons ym yms)
  from calendar_block_ok [OF assms] obtain b where b: "calendar_block rt evs ym = Inr b"
    by blast
  from Cons.IH [of "c @ [b]"] obtain blocks where
    "render_months rt evs (c @ [b]) yms = ((c @ [b]) @ blocks, None)"
    "list_all2 (\<lambda>ym b. calendar_block rt evs ym = Inr b) yms blocks"
    by blast
  then have "render_months rt evs c (ym # yms) = (c @ (b # blocks), None) \<and>
      list_all2 (\<lambda>ym b. calendar_block rt evs ym = Inr b) (ym # yms) (b # blocks)"
    using b by simp
  then show ?case by blast
qed

lemma renderCalendars_ok:
  assumes "\<forall>e \<in> set (allEventos st). categoria e \<notin> set Object_prototype_keys"
  shows "snd (renderCalendars rt st) = None"
    and "list_all2 (\<lambda>ym b. calendar_block rt (allEventos st) ym = Inr b)
           (getMonthsWithEvents rt st) (calendars_container (fst (renderCalendars rt st)))"
  using render_months_ok [OF assms, of rt "[]" "getMonthsWithEvents rt st"]
  by (auto simp: renderCalendars_def Let_def)

text \<open>The search for the year is right, and so are the days of a month.\<close>

lemma DayFromYear_add: "DayFromYear y < DayFromYear (y + 1 + int n)"
proof (induction n)
  case 0
  show ?case using DayFromYear_step [of y] by simp
next
  case (Suc n)
  have "DayFromYear (y + 1 + int n) < DayFromYear (y + 1 + int n + 1)"
    by (rule DayFromYear_step)
  then show ?case using Suc by (simp add: add.assoc)
qed

lemma DayFromYear_strict_mono: "y < y' \<Longrightarrow> DayFromYear y < DayFromYear y'"
proof -
  assume "y < y'"
  then have "y' = y + 1 + int (nat (y' - y - 1))"
    by simp
  then show ?thesis
    using DayFromYear_add [of y "nat (y' - y - 1)"] by simp
qed

lemma DayFromYear_le_iff: "DayFromYear y \<le> DayFromYear y' \<longleftrightarrow> y \<le> y'"
  using DayFromYear_strict_mono [of y y'] DayFromYear_strict_mono [of y' y]
  by (cases y y' rule: linorder_cases) auto

lemma year_down_le: "DayFromYear (year_down d y) \<le> d"
proof (induction d y rule: year_down.induct)
  case (1 d y)
  show ?case
  proof (cases "d < DayFromYear y")
    case True
    then show ?thesis using "1.IH" by (subst year_down.simps) simp
  next
    case False
    then show ?thesis by (subst year_down.simps) simp
  qed
qed

lemma year_up_spec:
  "DayFromYear y \<le> d \<Longrightarrow>
   DayFromYear (year_up d y) \<le> d \<and> d < DayFromYear (year_up d y + 1)"
proof (induction d y rule: year_up.induct)
  case (1 d y)
  show ?case
  proof (cases "DayFromYear (y + 1) \<le> d")
    case True
    then show ?thesis using "1.IH" by (subst (1 2) year_up.simps) simp
  next
    case False
    then show ?thesis using "1.prems" by (subst (1 2) year_up.simps) simp
  qed
qed

lemma YearFromDay_spec:
  "DayFromYear (YearFromDay d) \<le> d \<and> d < DayFromYear (YearFromDay d + 1)"
  unfolding YearFromDay_def by (rule year_up_spec [OF year_down_le])

lemma YearFromDay_eq:
  assumes "DayFromYear y \<le> d" "d < DayFromYear (y + 1)"
  shows "YearFromDay d = y"
proof -
  let ?z = "YearFromDay d"
  have z: "DayFromYear ?z \<le> d" "d < DayFromYear (?z + 1)"
    using YearFromDay_spec [of d] by simp_all
  have "DayFromYear y < DayFromYear (?z + 1)"
    using assms(1) z(2) by simp
  then have "y < ?z + 1"
    using DayFromYear_le_iff [of "?z + 1" y] by (simp add: not_le [symmetric])
  moreover have "DayFromYear ?z < DayFromYear (y + 1)"
    using assms(2) z(1) by simp
  then have "?z < y + 1"
    using DayFromYear_le_iff [of "y + 1" ?z] by (simp add: not_le [symmetric])
  ultimately show ?thesis by simp
qed

lemma day_in_year:
  assumes "0 \<le> w" "w < DaysInYear y"
  shows "YearFromDay (DayFromYear y + w) = y"
    and "DayWithinYear (DayFromYear y + w) = w"
    and "InLeapYear (DayFromYear y + w) = (if leap_year y then 1 else 0)"
proof -
  show y: "YearFromDay (DayFromYear y + w) = y"
    using assms by (intro YearFromDay_eq) (simp_all add: DayFromYear_Suc)
  show "DayWithinYear (DayFromYear y + w) = w"
    by (simp add: DayWithinYear_def y)
  show "InLeapYear (DayFromYear y + w) = (if leap_year y then 1 else 0)"
    by (simp add: InLeapYear_def y)
qed

lemma DateFromDay_in_year:
  assumes "0 \<le> w" "w < DaysInYear y"
  shows "DateFromDay (DayFromYear y + w) =
           w - month_start (month_of w (if leap_year y then 1 else 0)) (if leap_year y then 1 else 0) + 1"
  by (simp add: DateFromDay_def MonthFromDay_def day_in_year [OF assms])

lemma last_day_of_month:
  assumes "1 \<le> m" "m \<le> 12"
  shows "DateFromDay (MakeDay y m 0) = days_in_month y m"
proof (cases "m = 12")
  case True
  have "MakeDay y 12 0 = DayFromYear y + (DaysInYear y - 1)"
    by (simp add: MakeDay_def Let_def month_start_def DayFromYear_Suc)
  moreover have "DateFromDay (DayFromYear y + (DaysInYear y - 1)) = 31"
    by (subst DateFromDay_in_year) (simp_all add: DaysInYear_def month_of_def month_start_def)
  ultimately show ?thesis
    by (simp add: True days_in_month_def)
next
  case False
  then have m: "m \<in> {1, 2, 3, 4, 5, 6, 7, 8, 9, 10, 11}"
    using assms by simp arith
  let ?l = "if leap_year y then 1 else 0 :: int"
  have "m div 12 = 0" "m mod 12 = m"
    using m by auto
  then have e: "MakeDay y m 0 = DayFromYear y + (month_start m ?l - 1)"
    by (simp add: MakeDay_def Let_def)
  have w: "0 \<le> month_start m ?l - 1" "month_start m ?l - 1 < DaysInYear y"
    using m by (auto simp: month_start_def DaysInYear_def)
  have k: "month_start m l - 1 - month_start (month_of (month_start m l - 1) l) l + 1 =
      (if m = 2 then 28 + l else if m = 4 \<or> m = 6 \<or> m = 9 \<or> m = 11 then 30 else 31)"
    if "l = 0 \<or> l = 1" for l :: int
    using m that unfolding month_of_def month_start_def by (elim insertE disjE emptyE) simp_all
  have "DateFromDay (DayFromYear y + (month_start m ?l - 1)) =
      month_start m ?l - 1 - month_start (month_of (month_start m ?l - 1) ?l) ?l + 1"
    by (rule DateFromDay_in_year [OF w])
  also have "\<dots> = days_in_month y m"
    by (subst k) (simp_all add: days_in_month_def)
  finally have "DateFromDay (DayFromYear y + (month_start m ?l - 1)) = days_in_month y m" .
  then show ?thesis
    by (simp add: e)
qed

lemma div_bounds:
  fixes a k :: int
  assumes "0 < k"
  shows "k * (a div k) \<le> a" and "a < k * (a div k) + k"
proof -
  have "a = k * (a div k) + a mod k"
    by simp
  moreover have "0 \<le> a mod k" "a mod k < k"
    using assms by simp_all
  ultimately show "k * (a div k) \<le> a" and "a < k * (a div k) + k"
    by linarith+
qed

lemma DayFromYear_bounds:
  "146097 * (y - 1970) - 1200 \<le> 400 * DayFromYear y"
  "400 * DayFromYear y \<le> 146097 * (y - 1970) + 1200"
proof -
  define a b c where "a = (y - 1969) div 4" and "b = (y - 1901) div 100"
    and "c = (y - 1601) div 400"
  have d: "DayFromYear y = 365 * (y - 1970) + a - b + c"
    by (simp add: DayFromYear_def a_def b_def c_def)
  have a: "4 * a \<le> y - 1969" "y - 1969 < 4 * a + 4"
    unfolding a_def by (rule div_bounds; simp)+
  have b: "100 * b \<le> y - 1901" "y - 1901 < 100 * b + 100"
    unfolding b_def by (rule div_bounds; simp)+
  have c: "400 * c \<le> y - 1601" "y - 1601 < 400 * c + 400"
    unfolding c_def by (rule div_bounds; simp)+
  show "146097 * (y - 1970) - 1200 \<le> 400 * DayFromYear y"
    unfolding d using a b c by simp
  show "400 * DayFromYear y \<le> 146097 * (y - 1970) + 1200"
    unfolding d using a b c by simp
qed

lemma month_start_bounds: "0 \<le> l \<Longrightarrow> l \<le> 1 \<Longrightarrow> 0 \<le> month_start m l \<and> month_start m l \<le> 366"
  by (simp add: month_start_def)

lemma MakeDay_bounds:
  assumes "- 270000 \<le> y" "y \<le> 270000" "0 \<le> m" "m \<le> 12" "0 \<le> d" "d \<le> 31"
  shows "\<bar>MakeDay y m d\<bar> \<le> 99999999"
proof -
  define ym where "ym = y + m div 12"
  define s where "s = month_start (m mod 12) (if leap_year ym then 1 else 0)"
  have "0 \<le> m div 12" "m div 12 \<le> 1"
    using assms(3,4) div_bounds [of 12 m] by linarith+
  then have ym: "- 270000 \<le> ym" "ym \<le> 270001"
    using assms(1,2) by (simp_all add: ym_def)
  have s: "0 \<le> s" "s \<le> 366"
    unfolding s_def using month_start_bounds [of "if leap_year ym then 1 else 0" "m mod 12"]
    by simp_all
  have e: "MakeDay y m d = DayFromYear ym + s + d - 1"
    by (simp add: MakeDay_def Let_def ym_def s_def)
  have "- 99999999 \<le> DayFromYear ym + s + d - 1"
    using DayFromYear_bounds(1) [of ym] ym s assms(5,6) by simp
  moreover have "DayFromYear ym + s + d - 1 \<le> 99999999"
    using DayFromYear_bounds(2) [of ym] ym s assms(5,6) by simp
  ultimately show ?thesis
    unfolding e by linarith
qed

lemma Date_local_in_range:
  assumes "- 270000 \<le> y" "y \<le> 270000" "0 \<le> m" "m \<le> 12" "0 \<le> d" "d \<le> 31"
    and "\<bar>tza\<bar> \<le> msPerDay"
  shows "\<bar>MakeDay y m d * msPerDay - tza\<bar> \<le> 8640000000000000"
  using MakeDay_bounds [OF assms(1-6)] assms(7) unfolding msPerDay_def by simp

text \<open>The weekday that \<open>getDay\<close> gives for a day of the calendar is the weekday of the
  congruence.\<close>

lemma div_shift: "(y - k * c) div k = y div k - c" if "k \<noteq> 0" for y k c :: int
  using div_mult_self2 [of k y "- c"] that by simp

lemma DayFromYear_closed:
  "DayFromYear y = 365 * y + ((y - 1) div 4 - (y - 1) div 100 + (y - 1) div 400) - 719527"
proof -
  have a: "(y - 1969) div 4 = (y - 1) div 4 - 492"
    using div_shift [of 4 "y - 1" 492] by simp
  have b: "(y - 1901) div 100 = (y - 1) div 100 - 19"
    using div_shift [of 100 "y - 1" 19] by simp
  have c: "(y - 1601) div 400 = (y - 1) div 400 - 4"
    using div_shift [of 400 "y - 1" 4] by simp
  show ?thesis
    unfolding DayFromYear_def a b c by simp
qed

lemma leap_combine:
  fixes a b c a' b' c' :: int
  assumes "a' = a + (if p4 then 1 else 0)"
    and "b' = b + (if p100 then 1 else 0)"
    and "c' = c + (if p400 then 1 else 0)"
    and "p400 \<Longrightarrow> p100" and "p100 \<Longrightarrow> p4"
  shows "a' - b' + c' = a - b + c + (if p4 \<and> (\<not> p100 \<or> p400) then 1 else 0)"
  using assms by auto

lemma leap_days_step:
  "y div 4 - y div 100 + y div 400 =
   (y - 1) div 4 - (y - 1) div 100 + (y - 1) div 400 + (if leap_year y then 1 else 0)"
proof -
  have a: "y div 4 = (y - 1) div 4 + (if y mod 4 = 0 then 1 else 0)"
    using div_step [of 4 "y - 1"] by simp
  have b: "y div 100 = (y - 1) div 100 + (if y mod 100 = 0 then 1 else 0)"
    using div_step [of 100 "y - 1"] by simp
  have c: "y div 400 = (y - 1) div 400 + (if y mod 400 = 0 then 1 else 0)"
    using div_step [of 400 "y - 1"] by simp
  have d: "y mod 400 = 0 \<Longrightarrow> y mod 100 = 0"
    using dvd_trans [of 100 400 y] by (simp add: mod_eq_0_iff_dvd)
  have e: "y mod 100 = 0 \<Longrightarrow> y mod 4 = 0"
    using dvd_trans [of 4 100 y] by (simp add: mod_eq_0_iff_dvd)
  show ?thesis
    unfolding leap_year_def by (rule leap_combine [OF a b c d e])
qed

lemma mod7_shift: "a = b + 7 * k \<Longrightarrow> a mod 7 = b mod 7" for a b k :: int
  by simp

lemma weekday_linear_early:
  fixes y a b c l d m :: int
  assumes "m \<in> {1, 2}"
  shows "(365 * y + (a - b + c) - 719527 + month_start (m - 1) l + d - 1 + 4) mod 7 =
         (y - 1 + a - b + c + [0, 3, 2, 5, 0, 3, 5, 1, 4, 6, 2, 4] ! nat (m - 1) + d) mod 7"
  using assms
proof (elim insertE emptyE)
  assume "m = 1"
  then show ?thesis
    by (intro mod7_shift [where k = "52 * y - 102789"]) (simp add: month_start_def)
next
  assume "m = 2"
  then show ?thesis
    by (intro mod7_shift [where k = "52 * y - 102785"]) (simp add: month_start_def)
qed

lemma weekday_linear_late:
  fixes y a b c a' b' c' l d m :: int
  assumes "m \<in> {3, 4, 5, 6, 7, 8, 9, 10, 11, 12}"
    and "a' - b' + c' = a - b + c + l"
  shows "(365 * y + (a - b + c) - 719527 + month_start (m - 1) l + d - 1 + 4) mod 7 =
         (y + a' - b' + c' + [0, 3, 2, 5, 0, 3, 5, 1, 4, 6, 2, 4] ! nat (m - 1) + d) mod 7"
  using assms(1)
proof (elim insertE emptyE)
  assume "m = 3"
  then show ?thesis
    using assms(2) by (intro mod7_shift [where k = "52 * y - 102781"]) (simp add: month_start_def)
next
  assume "m = 4"
  then show ?thesis
    using assms(2) by (intro mod7_shift [where k = "52 * y - 102777"]) (simp add: month_start_def)
next
  assume "m = 5"
  then show ?thesis
    using assms(2) by (intro mod7_shift [where k = "52 * y - 102772"]) (simp add: month_start_def)
next
  assume "m = 6"
  then show ?thesis
    using assms(2) by (intro mod7_shift [where k = "52 * y - 102768"]) (simp add: month_start_def)
next
  assume "m = 7"
  then show ?thesis
    using assms(2) by (intro mod7_shift [where k = "52 * y - 102764"]) (simp add: month_start_def)
next
  assume "m = 8"
  then show ?thesis
    using assms(2) by (intro mod7_shift [where k = "52 * y - 102759"]) (simp add: month_start_def)
next
  assume "m = 9"
  then show ?thesis
    using assms(2) by (intro mod7_shift [where k = "52 * y - 102755"]) (simp add: month_start_def)
next
  assume "m = 10"
  then show ?thesis
    using assms(2) by (intro mod7_shift [where k = "52 * y - 102751"]) (simp add: month_start_def)
next
  assume "m = 11"
  then show ?thesis
    using assms(2) by (intro mod7_shift [where k = "52 * y - 102746"]) (simp add: month_start_def)
next
  assume "m = 12"
  then show ?thesis
    using assms(2) by (intro mod7_shift [where k = "52 * y - 102742"]) (simp add: month_start_def)
qed

lemma WeekDay_MakeDay:
  assumes "1 \<le> m" "m \<le> 12"
  shows "WeekDay (MakeDay y (m - 1) d) = weekday_of_date y m d"
proof -
  define a b c where "a = (y - 1) div 4" and "b = (y - 1) div 100" and "c = (y - 1) div 400"
  define a' b' c' where "a' = y div 4" and "b' = y div 100" and "c' = y div 400"
  define l :: int where "l = (if leap_year y then 1 else 0)"
  have st: "a' - b' + c' = a - b + c + l"
    unfolding a_def b_def c_def a'_def b'_def c'_def l_def by (rule leap_days_step)
  have dfy: "DayFromYear y = 365 * y + (a - b + c) - 719527"
    unfolding a_def b_def c_def by (rule DayFromYear_closed)
  have m: "m \<in> {1, 2, 3, 4, 5, 6, 7, 8, 9, 10, 11, 12}"
    using assms by simp arith
  have "(m - 1) div 12 = 0" "(m - 1) mod 12 = m - 1"
    using m by auto
  then have md: "MakeDay y (m - 1) d = DayFromYear y + month_start (m - 1) l + d - 1"
    by (simp add: MakeDay_def Let_def l_def)
  show ?thesis
  proof (cases "m < 3")
    case True
    then have m2: "m \<in> {1, 2}"
      using m by auto
    have w: "weekday_of_date y m d =
        (y - 1 + a - b + c + [0, 3, 2, 5, 0, 3, 5, 1, 4, 6, 2, 4] ! nat (m - 1) + d) mod 7"
      unfolding a_def b_def c_def using True by (simp add: weekday_of_date_def Let_def)
    show ?thesis
      unfolding WeekDay_def md dfy w using weekday_linear_early [OF m2]  by simp
  next
    case False
    then have m3: "m \<in> {3, 4, 5, 6, 7, 8, 9, 10, 11, 12}"
      using m by auto
    have w: "weekday_of_date y m d =
        (y + a' - b' + c' + [0, 3, 2, 5, 0, 3, 5, 1, 4, 6, 2, 4] ! nat (m - 1) + d) mod 7"
      unfolding a'_def b'_def c'_def using False by (simp add: weekday_of_date_def Let_def)
    show ?thesis
      unfolding WeekDay_def md dfy w by (rule weekday_linear_late [OF m3 st])
  qed
qed

lemma daysInMonth_of_calendar:
  assumes "y < 0 \<or> 100 \<le> y" "- 270000 \<le> y" "y \<le> 270000" "1 \<le> m" "m \<le> 12"
    and "\<bar>LocalTZA rt\<bar> \<le> msPerDay"
  shows "daysInMonth_of rt (Some y, Some m) = Some (days_in_month y m)"
proof -
  have r: "\<bar>MakeDay y m 0 * msPerDay - LocalTZA rt\<bar> \<le> 8640000000000000"
    using assms by (intro Date_local_in_range) simp_all
  have n: "\<not> (0 \<le> y \<and> y \<le> 99)"
    using assms(1) by auto
  show ?thesis
    using Date_local_getters(2) [OF n r] last_day_of_month [OF assms(4,5), of y]
    by (simp add: daysInMonth_of_def ToNumber_def)
qed

lemma firstDay_of_weekday:
  assumes "y < 0 \<or> 100 \<le> y" "- 270000 \<le> y" "y \<le> 270000" "1 \<le> m" "m \<le> 12"
    and "\<bar>LocalTZA rt\<bar> \<le> msPerDay"
  shows "firstDay_of rt (Some y, Some m) = Some (weekday_of_date y m 1)"
proof -
  have r: "\<bar>MakeDay y (m - 1) 1 * msPerDay - LocalTZA rt\<bar> \<le> 8640000000000000"
    using assms by (intro Date_local_in_range) simp_all
  have n: "\<not> (0 \<le> y \<and> y \<le> 99)"
    using assms(1) by auto
  show ?thesis
    using Date_local_getters(1) [OF n r] WeekDay_MakeDay [OF assms(4,5), of y 1]
    by (simp add: firstDay_of_def ToNumber_def)
qed

lemma weekday_of_date_range: "0 \<le> weekday_of_date y m d \<and> weekday_of_date y m d < 7"
  by (simp add: weekday_of_date_def Let_def)


lemma calendar_block_title:
  assumes "calendar_block rt evs ym = Inr b" "children b = [titleDiv, gridDiv]"
  shows "textContent titleDiv =
           capitalize (toLocaleString_month_year (LocalTZA rt)
             (Date_local (LocalTZA rt) (ToNumber (fst ym)) (ToNumber (snd ym) - 1) 1))"
  using assms
  by (auto simp: calendar_block_def Let_def createElement_def split: sum.splits)

text \<open>The container of a list with one month, when no category names a member of
  \<open>Object.prototype\<close>: one block, with the title and the grid of that month.\<close>

lemma single_block:
  assumes "\<forall>e \<in> set (allEventos st). categoria e \<notin> set Object_prototype_keys"
    and "getMonthsWithEvents rt st = [ym]"
  shows "\<exists>b titleDiv gridDiv.
           calendars_container (fst (renderCalendars rt st)) = [b] \<and>
           children b = [titleDiv, gridDiv] \<and>
           textContent titleDiv =
             capitalize (toLocaleString_month_year (LocalTZA rt)
               (Date_local (LocalTZA rt) (ToNumber (fst ym)) (ToNumber (snd ym) - 1) 1)) \<and>
           calendar_grid rt (allEventos st) ym = Inr gridDiv"
proof -
  from renderCalendars_ok(2) [OF assms(1), of rt] obtain b where
    b: "calendars_container (fst (renderCalendars rt st)) = [b]"
      "calendar_block rt (allEventos st) ym = Inr b"
    by (auto simp: assms(2) list_all2_Cons1)
  from calendar_block_children [OF b(2)] obtain titleDiv gridDiv where
    g: "children b = [titleDiv, gridDiv]" "calendar_grid rt (allEventos st) ym = Inr gridDiv"
    by blast
  show ?thesis
    using b(1) g calendar_block_title [OF b(2) g(1)] by blast
qed

lemma utc_offset: "\<bar>LocalTZA utc\<bar> \<le> msPerDay"
  by (simp add: utc_def msPerDay_def)






lemma textContent_set_backgroundColor [simp]: "textContent (set_backgroundColor v e) = textContent e"
  by (cases v; cases e) simp_all




text \<open>For a year outside 0 to 99 (and from -270000 to 270000), a month from 1 to 12 and a
  local time within a day of UTC, the two loop bounds are the weekday of the first day and
  the length of the month in the calendar.\<close>

lemma loop_bounds_of_calendar:
  assumes "y < 0 \<or> 100 \<le> y" "- 270000 \<le> y" "y \<le> 270000" "1 \<le> m" "m \<le> 12"
    and "\<bar>LocalTZA rt\<bar> \<le> msPerDay"
  shows "nat (loop_bound (firstDay_of rt (Some y, Some m))) = nat (weekday_of_date y m 1)"
    and "nat (loop_bound (daysInMonth_of rt (Some y, Some m))) = nat (days_in_month y m)"
  by (simp_all add: firstDay_of_weekday [OF assms] daysInMonth_of_calendar [OF assms] loop_bound_def)







subsection \<open>The list view\<close>

lemma insert_cmp_insort_key:
  fixes key :: "'a \<Rightarrow> 'k::linorder"
  assumes "\<forall>b \<in> set ys. (cmp x b \<le> 0) = (key x \<le> key b)"
  shows "insert_cmp cmp x ys = insort_key key x ys"
  using assms by (induction ys) simp_all

lemma stable_sort_sort_key:
  fixes key :: "'a \<Rightarrow> 'k::linorder"
  assumes "\<forall>a \<in> set xs. \<forall>b \<in> set xs. (cmp a b \<le> 0) = (key a \<le> key b)"
  shows "stable_sort xs cmp = sort_key key xs"
  using assms
proof (induction xs)
  case Nil
  show ?case by (simp add: stable_sort_def)
next
  case (Cons x xs)
  then have ih: "foldr (insert_cmp cmp) xs [] = sort_key key xs"
    by (simp add: stable_sort_def)
  have "insert_cmp cmp x (sort_key key xs) = insort_key key x (sort_key key xs)"
    using Cons.prems by (intro insert_cmp_insort_key) simp
  then show ?case
    by (simp add: stable_sort_def ih)
qed

text \<open>A comparator that compares by a key in a linear order is consistent, and the
  standard's result is then the stable sort by the key.\<close>

lemma consistent_key:
  fixes key :: "'a \<Rightarrow> 'k::linorder"
  assumes "\<forall>a \<in> set xs. \<forall>b \<in> set xs.
             (cmp a b < 0) = (key a < key b) \<and> (cmp a b = 0) = (key a = key b)"
  shows "consistent cmp xs"
proof -
  have lt: "(cmp a b < 0) = (key a < key b)" if "a \<in> set xs" "b \<in> set xs" for a b
    using assms that by blast
  have eq: "(cmp a b = 0) = (key a = key b)" if "a \<in> set xs" "b \<in> set xs" for a b
    using assms that by blast
  have gt: "(0 < cmp a b) = (key b < key a)" if "a \<in> set xs" "b \<in> set xs" for a b
    using lt [OF that] eq [OF that] by (cases "cmp a b" "0::int" rule: linorder_cases) auto
  show ?thesis
    unfolding consistent_def
  proof (intro ballI conjI impI)
    fix a assume "a \<in> set xs"
    then show "cmp a a = 0" by (simp add: eq)
  next
    fix a b assume "a \<in> set xs" "b \<in> set xs" "cmp a b = 0"
    then show "cmp b a = 0" by (simp add: eq)
  next
    fix a b c assume "a \<in> set xs" "b \<in> set xs" "c \<in> set xs" "cmp a b = 0 \<and> cmp b c = 0"
    then show "cmp a c = 0" by (simp add: eq)
  next
    fix a b c assume "a \<in> set xs" "b \<in> set xs" "c \<in> set xs" "cmp a b < 0 \<and> cmp b c < 0"
    then have "key a < key b" "key b < key c" by (simp_all add: lt)
    then have "key a < key c" by (rule less_trans)
    with \<open>a \<in> set xs\<close> \<open>c \<in> set xs\<close> show "cmp a c < 0" by (simp add: lt)
  next
    fix a b c assume "a \<in> set xs" "b \<in> set xs" "c \<in> set xs" "0 < cmp a b \<and> 0 < cmp b c"
    then have "key c < key b" "key b < key a" by (simp_all add: gt)
    then have "key c < key a" by (rule less_trans)
    with \<open>a \<in> set xs\<close> \<open>c \<in> set xs\<close> show "0 < cmp a c" by (simp add: gt)
  qed
qed

lemma Array_sort_sort_key:
  fixes key :: "'a \<Rightarrow> 'k::linorder"
  assumes "\<forall>a \<in> set xs. \<forall>b \<in> set xs.
             (cmp a b < 0) = (key a < key b) \<and> (cmp a b = 0) = (key a = key b)"
  shows "Array_sort impl xs cmp = sort_key key xs"
proof -
  have "(cmp a b \<le> 0) = (key a \<le> key b)" if "a \<in> set xs" "b \<in> set xs" for a b
    using assms that by (auto simp: le_less)
  then have "stable_sort xs cmp = sort_key key xs"
    by (intro stable_sort_sort_key) simp
  then show ?thesis
    using consistent_key [OF assms] by (simp add: Array_sort_def)
qed

lemma sorted_distinct_key_unique:
  fixes key :: "'a \<Rightarrow> 'k::linorder"
  assumes "sorted (map key xs)" "sorted (map key ys)" "distinct xs" "distinct ys"
    and "set xs = set ys" and "inj_on key (set xs)"
  shows "xs = ys"
proof -
  have "distinct (map key xs)" "distinct (map key ys)"
    using assms by (simp_all add: distinct_map)
  moreover have "set (map key xs) = set (map key ys)"
    using assms(5) by simp
  ultimately have "map key xs = map key ys"
    using assms(1,2) by (intro sorted_distinct_set_unique)
  then show ?thesis
    using assms(5,6) by (intro map_inj_on [of key]) simp_all
qed

lemma indexOf_month_titles:
  "map (indexOf meses) month_titles = [- 1, 0, 1, 2, 3, 4, 5, 6, 7, 8, 9, 10, 11]"
  by (simp add: month_titles_def meses_def indexOf_def)

lemma toUpperCase_initials:
  "toUpperCase_char CHR ''j'' = CHR ''J''" "toUpperCase_char CHR ''f'' = CHR ''F''"
  "toUpperCase_char CHR ''m'' = CHR ''M''" "toUpperCase_char CHR ''a'' = CHR ''A''"
  "toUpperCase_char CHR ''s'' = CHR ''S''" "toUpperCase_char CHR ''o'' = CHR ''O''"
  "toUpperCase_char CHR ''n'' = CHR ''N''" "toUpperCase_char CHR ''d'' = CHR ''D''"
  "toUpperCase_char CHR ''I'' = CHR ''I''"
  by code_simp+

lemma capitalize_month_long: "capitalize (month_long m) \<in> set meses"
  by (simp add: month_long_def meses_def capitalize_def toUpperCase_initials)

lemma monthName_of_titles: "monthName_of rt e \<in> set month_titles"
proof (cases "getMonth (LocalTZA rt) (Date_parse (Date_parse_other rt) (data e))")
  case None
  then show ?thesis
    by (simp add: monthName_of_def toLocaleString_month_def month_titles_def capitalize_def
        toUpperCase_initials)
next
  case (Some m)
  then show ?thesis
    using capitalize_month_long [of m]
    by (simp add: monthName_of_def toLocaleString_month_def month_titles_def)
qed

lemma monthName_own: "monthName_of rt e \<notin> set Object_prototype_keys"
proof -
  have "set month_titles \<inter> set Object_prototype_keys = {}"
    by (simp add: month_titles_def meses_def Object_prototype_keys_def)
  then show ?thesis
    using monthName_of_titles [of rt e] by blast
qed

lemma children_month_group:
  "children (month_group rt month evs) =
     Element ''h3'' [''month-title''] month [] None [] [] # map (event_item rt) evs"
  by (simp add: month_group_def Let_def children_foldl_appendChild createElement_def)

lemma month_group_title_rows:
  "group_title (month_group rt month evs) = month"
  "group_rows (month_group rt month evs) = map (event_item rt) evs"
  by (simp_all add: group_title_def group_rows_def children_month_group)

lemma foldl_snoc_map: "foldl (\<lambda>acc x. acc @ [f x]) acc xs = acc @ map f xs"
  by (induction xs arbitrary: acc) simp_all

lemma eventos_container_map:
  "eventos_container (renderEventsList rt st) =
     map (\<lambda>month. month_group rt month
            (own_property (groupEventosByMonth rt (getFilteredEventos st)) month))
       (monthKeys_of rt (groupEventosByMonth rt (getFilteredEventos st)))"
  by (simp add: renderEventsList_def Let_def foldl_snoc_map)

lemma own_property_group:
  assumes "k \<in> fst ` set (groupEventosByMonth rt evs)"
  shows "own_property (groupEventosByMonth rt evs) k = filter (\<lambda>e. monthName_of rt e = k) evs"
proof -
  let ?g = "groupEventosByMonth rt evs"
  have inv: "grouped_inv rt ?g evs"
    by (rule grouped_inv_groupEventosByMonth)
  from assms obtain es where p: "(k, es) \<in> set ?g"
    by auto
  have d: "distinct (map fst ?g)"
    using inv by (simp add: grouped_inv_def)
  have "map_of ?g k = Some es"
    using d p by simp
  moreover have "es = filter (\<lambda>e. monthName_of rt e = k) evs"
    using inv p by (fastforce simp: grouped_inv_def)
  ultimately show ?thesis
    by (simp add: own_property_def)
qed

lemma monthKeys_canonical:
  "monthKeys_of rt (groupEventosByMonth rt evs) =
     filter (\<lambda>m. m \<in> monthName_of rt ` set evs) month_titles"
proof -
  let ?g = "groupEventosByMonth rt evs"
  let ?ks = "map fst ?g"
  let ?idx = "indexOf meses"
  have inv: "grouped_inv rt ?g evs"
    by (rule grouped_inv_groupEventosByMonth)
  then have d: "distinct ?ks" and ks: "set ?ks = monthName_of rt ` set evs"
    by (simp_all add: grouped_inv_def)
  have sub: "set ?ks \<subseteq> set month_titles"
    unfolding ks using monthName_of_titles by blast
  have s: "monthKeys_of rt ?g = sort_key ?idx ?ks"
    unfolding monthKeys_of_def by (rule Array_sort_sort_key) auto
  have "distinct (map ?idx month_titles)"
    by (simp add: indexOf_month_titles)
  then have dm: "distinct month_titles" and inj: "inj_on ?idx (set month_titles)"
    by (simp_all add: distinct_map)
  have sm: "sorted (map ?idx month_titles)"
    by (simp add: indexOf_month_titles)
  have "sort_key ?idx ?ks = filter (\<lambda>m. m \<in> set ?ks) month_titles"
  proof (rule sorted_distinct_key_unique [where key = ?idx])
    show "sorted (map ?idx (sort_key ?idx ?ks))"
      by simp
    show "sorted (map ?idx (filter (\<lambda>m. m \<in> set ?ks) month_titles))"
      using sm by (rule sorted_filter)
    show "distinct (sort_key ?idx ?ks)"
      using d by simp
    show "distinct (filter (\<lambda>m. m \<in> set ?ks) month_titles)"
      using dm by simp
    show "set (sort_key ?idx ?ks) = set (filter (\<lambda>m. m \<in> set ?ks) month_titles)"
      using sub by auto
    show "inj_on ?idx (set (sort_key ?idx ?ks))"
      using inj sub by (auto intro: inj_on_subset)
  qed
  moreover have "fst ` set ?g = monthName_of rt ` set evs"
    using ks by simp
  ultimately show ?thesis
    by (simp add: s)
qed

lemma eventos_container_eq:
  "eventos_container (renderEventsList rt st) =
     map (\<lambda>m. month_group rt m (filter (\<lambda>e. monthName_of rt e = m) (getFilteredEventos st)))
       (filter (\<lambda>m. m \<in> monthName_of rt ` set (getFilteredEventos st)) month_titles)"
proof -
  let ?evs = "getFilteredEventos st"
  let ?g = "groupEventosByMonth rt ?evs"
  have ks: "fst ` set ?g = monthName_of rt ` set ?evs"
    using grouped_inv_groupEventosByMonth [of rt ?evs] by (simp add: grouped_inv_def)
  have "own_property ?g m = filter (\<lambda>e. monthName_of rt e = m) ?evs"
    if "m \<in> set (filter (\<lambda>m. m \<in> monthName_of rt ` set ?evs) month_titles)" for m
    using that ks by (intro own_property_group) simp
  then show ?thesis
    unfolding eventos_container_map monthKeys_canonical by (intro map_cong) simp_all
qed

lemma example_month_names:
  "monthName_of utc posse = ''Mar'' @ [CHR 0xC3, CHR 0xA7] @ ''o''"
  "monthName_of utc festa = ''Mar'' @ [CHR 0xC3, CHR 0xA7] @ ''o''"
  "monthName_of utc sessao = ''Mar'' @ [CHR 0xC3, CHR 0xA7] @ ''o''"
  "monthName_of utc carnaval = ''Fevereiro''"
  "monthName_of utc ano_novo = ''Janeiro''"
  by code_simp+

text \<open>
  C5. The month groups of the list view stand in the order of the fixed list \<open>meses\<close>,
  January to December (a group \<open>Invalid Date\<close>, if there is one, comes first), whatever
  the order of the events, the alphabet or the years: the titles are the month names of
  the filtered events picked out of that fixed sequence. The rows of a group are all the
  filtered events of that month name in input order, so events of the same month of
  different years are in one group. Example: events of March 2027, February 2026, January
  2026 and March 2026 give the groups Janeiro, Fevereiro, Marco, the last with both
  March events.
\<close>

theorem renderEventsList_month_order:
  "map group_title (eventos_container (renderEventsList rt st)) =
     filter (\<lambda>m. m \<in> monthName_of rt ` set (getFilteredEventos st)) (''Invalid Date'' # meses) \<and>
   (\<forall>g \<in> set (eventos_container (renderEventsList rt st)).
      group_rows g =
        map (event_item rt) (filter (\<lambda>e. monthName_of rt e = group_title g) (getFilteredEventos st))) \<and>
   eventos_container (renderEventsList utc (page [posse, carnaval, ano_novo, festa] ''Todas'')) =
     [month_group utc ''Janeiro'' [ano_novo],
      month_group utc ''Fevereiro'' [carnaval],
      month_group utc (''Mar'' @ [CHR 0xC3, CHR 0xA7] @ ''o'') [posse, festa]]"
proof -
  have 1: "map group_title (eventos_container (renderEventsList rt st)) =
     filter (\<lambda>m. m \<in> monthName_of rt ` set (getFilteredEventos st)) (''Invalid Date'' # meses)"
    unfolding eventos_container_eq month_titles_def [symmetric]
    by (simp add: comp_def month_group_title_rows)
  have 2: "group_rows g =
        map (event_item rt) (filter (\<lambda>e. monthName_of rt e = group_title g) (getFilteredEventos st))"
    if "g \<in> set (eventos_container (renderEventsList rt st))" for g
    using that unfolding eventos_container_eq by (auto simp: month_group_title_rows)
  have 3: "eventos_container (renderEventsList utc (page [posse, carnaval, ano_novo, festa] ''Todas'')) =
     [month_group utc ''Janeiro'' [ano_novo],
      month_group utc ''Fevereiro'' [carnaval],
      month_group utc (''Mar'' @ [CHR 0xC3, CHR 0xA7] @ ''o'') [posse, festa]]"
    unfolding eventos_container_eq
    by (simp add: getFilteredEventos_def page_def example_month_names month_titles_def meses_def)
  show ?thesis
    using 1 2 3 by blast
qed

theorem renderEventsList_month_order_witness:
  "map group_title (eventos_container (renderEventsList utc (page [posse, carnaval, ano_novo, festa] ''Todas''))) =
     [''Janeiro'', ''Fevereiro'', ''Mar'' @ [CHR 0xC3, CHR 0xA7] @ ''o''] \<and>
   map group_rows (eventos_container (renderEventsList utc (page [posse, carnaval, ano_novo, festa] ''Todas''))) =
     [[event_item utc ano_novo], [event_item utc carnaval], [event_item utc posse, event_item utc festa]]"
  using renderEventsList_month_order [of utc "page [posse, carnaval, ano_novo, festa] ''Todas''"]
  by (simp add: month_group_title_rows)

subsection \<open>The months of the grid view\<close>

lemma mset_insert_cmp: "mset (insert_cmp cmp x ys) = add_mset x (mset ys)"
  by (induction ys) simp_all

lemma mset_stable_sort: "mset (stable_sort xs cmp) = mset xs"
  by (induction xs) (simp_all add: stable_sort_def mset_insert_cmp)

lemma Set_add_fold:
  "distinct acc \<Longrightarrow>
   distinct (foldl (\<lambda>months x. Set_add months (f x)) acc xs) \<and>
   set (foldl (\<lambda>months x. Set_add months (f x)) acc xs) = set acc \<union> f ` set xs"
proof (induction xs arbitrary: acc)
  case Nil
  then show ?case by simp
next
  case (Cons x xs)
  have "distinct (Set_add acc (f x))" "set (Set_add acc (f x)) = insert (f x) (set acc)"
    using Cons.prems by (auto simp: Set_add_def)
  then show ?case
    using Cons.IH [of "Set_add acc (f x)"] by auto
qed

lemma month_of_range: "0 \<le> month_of w l \<and> month_of w l \<le> 11"
  by (simp add: month_of_def)

lemma year_month_of_valid:
  assumes "Date_parse (Date_parse_other rt) (data e) \<noteq> None"
  shows "\<exists>y m. year_month_of rt e = (Some y, Some m) \<and> 1 \<le> m \<and> m \<le> 12"
proof -
  from assms obtain t where "Date_parse (Date_parse_other rt) (data e) = Some t"
    by auto
  then show ?thesis
    using month_of_range [of "DayWithinYear (Day (t + LocalTZA rt))" "InLeapYear (Day (t + LocalTZA rt))"]
    by (simp add: year_month_of_def Let_def getFullYear_def getMonth_def MonthFromDay_def)
qed

lemma compare_months_key:
  assumes "a = (Some y, Some m)" "b = (Some y', Some m')"
  shows "(compare_months a b < 0) = (ym_key a < ym_key b) \<and>
         (compare_months a b = 0) = (ym_key a = ym_key b)"
  using assms by (auto simp: compare_months_def ym_key_def ToNumber_def less_prod_def)

text \<open>When every event has a date that parses, the pairs are years with months, the
  comparator is consistent on them, and \<open>getMonthsWithEvents\<close> returns the pairs that
  \<open>getFullYear\<close> and \<open>getMonth() + 1\<close> give, each once, in ascending order by year and
  month.\<close>

lemma getMonthsWithEvents_valid:
  assumes "\<forall>e \<in> set (allEventos st). Date_parse (Date_parse_other rt) (data e) \<noteq> None"
  shows "distinct (getMonthsWithEvents rt st)"
    and "set (getMonthsWithEvents rt st) = year_month_of rt ` set (allEventos st)"
    and "sorted_wrt ym_before (getMonthsWithEvents rt st)"
proof -
  let ?ms = "foldl (\<lambda>months evento. Set_add months (year_month_of rt evento)) [] (allEventos st)"
  have d: "distinct ?ms" and s: "set ?ms = year_month_of rt ` set (allEventos st)"
    using Set_add_fold [of "[]" "year_month_of rt" "allEventos st"] by simp_all
  have v: "\<exists>y m. a = (Some y, Some m)" if "a \<in> set ?ms" for a
  proof -
    from that obtain e where e: "e \<in> set (allEventos st)" "a = year_month_of rt e"
      unfolding s by auto
    then have "Date_parse (Date_parse_other rt) (data e) \<noteq> None"
      using assms by simp
    from year_month_of_valid [OF this] show ?thesis
      using e(2) by auto
  qed
  have c: "\<forall>a \<in> set ?ms. \<forall>b \<in> set ?ms.
      (compare_months a b < 0) = (ym_key a < ym_key b) \<and>
      (compare_months a b = 0) = (ym_key a = ym_key b)"
  proof (intro ballI)
    fix a b
    assume "a \<in> set ?ms" "b \<in> set ?ms"
    then obtain y m y' m' where "a = (Some y, Some m)" "b = (Some y', Some m')"
      using v by meson
    then show "(compare_months a b < 0) = (ym_key a < ym_key b) \<and>
      (compare_months a b = 0) = (ym_key a = ym_key b)"
      by (rule compare_months_key)
  qed
  have e: "getMonthsWithEvents rt st = sort_key ym_key ?ms"
    unfolding getMonthsWithEvents_def Let_def by (rule Array_sort_sort_key [OF c])
  show di: "distinct (getMonthsWithEvents rt st)"
    using d by (simp add: e)
  show "set (getMonthsWithEvents rt st) = year_month_of rt ` set (allEventos st)"
    using s by (simp add: e)
  have so: "sorted (map ym_key (getMonthsWithEvents rt st))"
    by (simp add: e)
  have inj: "inj_on ym_key (set (getMonthsWithEvents rt st))"
  proof (rule inj_onI)
    fix a b
    assume "a \<in> set (getMonthsWithEvents rt st)" "b \<in> set (getMonthsWithEvents rt st)"
      and k: "ym_key a = ym_key b"
    then have "a \<in> set ?ms" "b \<in> set ?ms"
      by (simp_all add: e)
    then obtain y m y' m' where "a = (Some y, Some m)" "b = (Some y', Some m')"
      using v by meson
    then show "a = b"
      using k by (simp add: ym_key_def ToNumber_def)
  qed
  have "distinct (map ym_key (getMonthsWithEvents rt st))"
    using di inj by (simp add: distinct_map)
  then have "sorted_wrt (<) (map ym_key (getMonthsWithEvents rt st))"
    using so by (simp add: strict_sorted_iff)
  then have "sorted_wrt (\<lambda>a b. ym_key a < ym_key b) (getMonthsWithEvents rt st)"
    by (simp add: sorted_wrt_map)
  moreover have "(ym_key a < ym_key b) = ym_before a b" for a b
    by (auto simp: ym_key_def ym_before_def less_prod_def)
  ultimately show "sorted_wrt ym_before (getMonthsWithEvents rt st)"
    by simp
qed

lemma example_months:
  "getMonthsWithEvents utc (page [posse, carnaval, festa, ano_novo, sessao] ''Todas'') =
     [(Some 2026, Some 1), (Some 2026, Some 2), (Some 2026, Some 3), (Some 2027, Some 3)]"
  by code_simp

subsection \<open>Styling by category\<close>

lemma table_keys: "map fst categoryColors = map fst categoryCssClasses"
  by (simp add: categoryColors_def categoryCssClasses_def)

lemma or_default_unknown:
  assumes "k \<notin> fst ` set tbl" "k \<notin> set Object_prototype_keys"
  shows "or_default (obj_get tbl k) d = JStr d"
proof -
  have "map_of tbl k = None"
    using assms(1) by (simp add: map_of_eq_None_iff)
  then show ?thesis
    using assms(2) by (simp add: obj_get_def or_default_def)
qed

lemma event_item_children:
  "children (event_item rt e) =
     [set_backgroundColor (or_default (obj_get categoryColors (categoria e)) ''#999'')
        (Element ''div'' [''event-date-box'']
           (String_of_number (getDate (LocalTZA rt) (Date_parse (Date_parse_other rt) (data e)))) [] None [] []),
      Element ''div'' [''event-details''] [] [] None []
        [Element ''div'' [''event-title''] (titulo e) [] None [] [],
         Element ''div'' [''event-category''] (categoria e) [] None [] [],
         Element ''div'' [''event-time'']
           (str_or (hora e) (''Hor'' @ [CHR 0xC3, CHR 0xA1] @ ''rio n'' @ [CHR 0xC3, CHR 0xA3] @ ''o definido''))
           [] None [] [],
         Element ''div'' [''event-location'']
           (str_or (local e) (''Local n'' @ [CHR 0xC3, CHR 0xA3] @ ''o definido'')) [] None [] []]]"
  by (simp add: event_item_def Let_def text_div_def createElement_def)

lemma subtree_classes_set_backgroundColor [simp]:
  "subtree_classes (set_backgroundColor v e) = subtree_classes e"
  by (cases v; cases e) simp_all

lemma event_item_classes:
  "subtree_classes (event_item rt e) =
     [''event-item'', ''event-date-box'', ''event-details'', ''event-title'', ''event-category'',
      ''event-time'', ''event-location'']"
proof -
  have "event_item rt e = Element ''div'' [''event-item''] [] [] None [] (children (event_item rt e))"
    by (simp add: event_item_def Let_def createElement_def)
  then have "subtree_classes (event_item rt e) =
      [''event-item''] @ concat (map subtree_classes (children (event_item rt e)))"
    by (metis subtree_classes.simps)
  then show ?thesis
    by (simp add: event_item_children)
qed

lemma find_append_first:
  assumes "\<forall>x \<in> set pre. \<not> p x" "p x"
  shows "find p (pre @ x # rest) = Some x"
  using assms by (induction pre) simp_all

lemma day_cell_error: "day_cell evs ym day = Inl err \<Longrightarrow> err = InvalidCharacterError"
  unfolding day_cell_find by (auto split: option.splits jsval.splits)

lemma append_days_error:
  assumes "d \<in> set days" "day_cell evs ym d = Inl err"
  shows "append_days evs ym g days = Inl InvalidCharacterError"
  using assms
proof (induction days arbitrary: g)
  case Nil
  then show ?case by simp
next
  case (Cons a days)
  show ?case
  proof (cases "day_cell evs ym a")
    case (Inl e)
    then show ?thesis using day_cell_error [OF Inl] by simp
  next
    case (Inr c)
    then have "d \<in> set days" using Cons.prems by auto
    then show ?thesis using Cons.IH Cons.prems(2) Inr by simp
  qed
qed

lemma example_dateStr:
  "dateStr_of (Some 2026, Some 3) 15 = data festa"
  "dateStr_of (Some 2026, Some 3) 20 = data intruso"
  "dateStr_of (Some 2027, Some 3) 2 = data posse"
  "dateStr_of (Some 2026, Some 3) 25 = data visita"
  by code_simp+

lemma months_of_styling_examples:
  "getMonthsWithEvents utc (page [intruso] ''Todas'') = [(Some 2026, Some 3)]"
  "getMonthsWithEvents utc (page [intruso, visita] ''Todas'') = [(Some 2026, Some 3)]"
  "getMonthsWithEvents utc (page [posse] ''Todas'') = [(Some 2027, Some 3)]"
  by code_simp+

text \<open>An exception in the first block leaves the container empty.\<close>

lemma first_block_throws:
  assumes "getMonthsWithEvents rt st = ym # yms"
    and "d \<in> set [1 .. loop_bound (daysInMonth_of rt ym)]"
    and "day_cell (allEventos st) ym d = Inl err"
  shows "snd (renderCalendars rt st) = Some InvalidCharacterError"
    and "calendars_container (fst (renderCalendars rt st)) = []"
proof -
  have "calendar_grid rt (allEventos st) ym = Inl InvalidCharacterError"
    unfolding calendar_grid_def Let_def by (rule append_days_error [OF assms(2,3)])
  then have "calendar_block rt (allEventos st) ym = Inl InvalidCharacterError"
    by (simp add: calendar_block_def Let_def)
  then show "snd (renderCalendars rt st) = Some InvalidCharacterError"
    and "calendars_container (fst (renderCalendars rt st)) = []"
    by (simp_all add: renderCalendars_def Let_def assms(1))
qed

lemma intruso_cell:
  "day_cell (allEventos (page (intruso # evs) f)) (Some 2026, Some 3) 20 = Inl InvalidCharacterError"
  unfolding day_cell_find example_dateStr
  by (simp add: page_def intruso_def obj_get_def or_default_def categoryCssClasses_def
      Object_prototype_keys_def)

lemma march_2026_day_20: "20 \<in> set [1 .. loop_bound (daysInMonth_of utc (Some 2026, Some 3))]"
  using daysInMonth_of_calendar [of 2026 3 utc] utc_offset
  by (simp add: loop_bound_def days_in_month_def)

text \<open>
  C8 as stated fails. The event \<open>posse\<close> has the category \<open>Desconhecida\<close>, which is in
  neither table; its row in the list view, and the whole month group around it, carry only
  the fixed classes of the list view and not the fallback class \<open>sematividade\<close>: the list
  view takes no class from the category at all. And the category \<open>constructor\<close>, also in
  neither table, finds the inherited member of the table objects instead of the fallback:
  the date box of the list row gets no colour and \<open>renderCalendars\<close> ends with
  \<open>InvalidCharacterError\<close>. The exception ends the whole rendering: in the list of
  \<open>intruso\<close> and \<open>visita\<close> the event \<open>visita\<close>, of category \<open>Desconhecida\<close>, is the first
  match of 25 March 2026, and the container holds no block and so no cell for it.
\<close>

theorem fallback_class_counterexample:
  "categoria posse \<notin> fst ` set categoryColors \<and>
   categoria posse \<notin> fst ` set categoryCssClasses \<and>
   eventos_container (renderEventsList utc (page [posse] ''Todas'')) =
     [month_group utc (''Mar'' @ [CHR 0xC3, CHR 0xA7] @ ''o'') [posse]] \<and>
   subtree_classes (month_group utc (''Mar'' @ [CHR 0xC3, CHR 0xA7] @ ''o'') [posse]) =
     [''month-group'', ''month-title'', ''event-item'', ''event-date-box'', ''event-details'',
      ''event-title'', ''event-category'', ''event-time'', ''event-location''] \<and>
   ''sematividade'' \<notin> set (subtree_classes (month_group utc (''Mar'' @ [CHR 0xC3, CHR 0xA7] @ ''o'') [posse])) \<and>
   categoria intruso \<notin> fst ` set categoryColors \<and>
   map backgroundColor (children (event_item utc intruso)) = [[], []] \<and>
   snd (renderCalendars utc (page [intruso] ''Todas'')) = Some InvalidCharacterError \<and>
   categoria visita \<notin> fst ` set categoryColors \<and>
   categoria visita \<notin> set Object_prototype_keys \<and>
   first_match [intruso, visita] (Some 2026, Some 3) 25 = Some visita \<and>
   snd (renderCalendars utc (page [intruso, visita] ''Todas'')) = Some InvalidCharacterError \<and>
   calendars_container (fst (renderCalendars utc (page [intruso, visita] ''Todas''))) = []"
proof -
  have 1: "categoria posse \<notin> fst ` set categoryColors"
    "categoria posse \<notin> fst ` set categoryCssClasses"
    "categoria intruso \<notin> fst ` set categoryColors"
    "categoria visita \<notin> fst ` set categoryColors"
    "categoria visita \<notin> set Object_prototype_keys"
    by (simp_all add: posse_def intruso_def visita_def categoryColors_def categoryCssClasses_def
        Object_prototype_keys_def)
  have 2: "eventos_container (renderEventsList utc (page [posse] ''Todas'')) =
     [month_group utc (''Mar'' @ [CHR 0xC3, CHR 0xA7] @ ''o'') [posse]]"
    unfolding eventos_container_eq
    by (simp add: getFilteredEventos_def page_def example_month_names month_titles_def meses_def)
  have "month_group utc m [posse] =
      Element ''div'' [''month-group''] [] [] None [] (children (month_group utc m [posse]))" for m
    by (simp add: month_group_def Let_def createElement_def)
  then have "subtree_classes (month_group utc m [posse]) =
      [''month-group''] @ concat (map subtree_classes (children (month_group utc m [posse])))" for m
    by (metis subtree_classes.simps)
  then have 3: "subtree_classes (month_group utc m [posse]) =
     [''month-group'', ''month-title'', ''event-item'', ''event-date-box'', ''event-details'',
      ''event-title'', ''event-category'', ''event-time'', ''event-location'']" for m
    by (simp add: children_month_group event_item_classes)
  have 4: "map backgroundColor (children (event_item utc intruso)) = [[], []]"
    by (simp add: event_item_children intruso_def obj_get_def or_default_def categoryColors_def
        Object_prototype_keys_def)
  have 5: "snd (renderCalendars utc (page [intruso] ''Todas'')) = Some InvalidCharacterError"
    by (rule first_block_throws(1) [OF months_of_styling_examples(1) march_2026_day_20 intruso_cell])
  have 6: "first_match [intruso, visita] (Some 2026, Some 3) 25 = Some visita"
    by (simp add: first_match_def example_dateStr) (simp add: intruso_def visita_def)
  have 7: "snd (renderCalendars utc (page [intruso, visita] ''Todas'')) = Some InvalidCharacterError"
    "calendars_container (fst (renderCalendars utc (page [intruso, visita] ''Todas''))) = []"
    by (rule first_block_throws [OF months_of_styling_examples(2) march_2026_day_20 intruso_cell])+
  show ?thesis
    using 1 2 4 5 6 7 by (simp add: 3)
qed

text \<open>The row of an event in the list view, and the cell of a day in the grid view.\<close>

lemma list_row_of_event:
  assumes "e \<in> set (getFilteredEventos st)"
  shows "\<exists>g \<in> set (eventos_container (renderEventsList rt st)).
           group_title g = monthName_of rt e \<and> event_item rt e \<in> set (group_rows g)"
proof -
  let ?k = "monthName_of rt e"
  let ?evs = "getFilteredEventos st"
  let ?g = "month_group rt ?k (filter (\<lambda>x. monthName_of rt x = ?k) ?evs)"
  have "?k \<in> monthName_of rt ` set ?evs"
    using assms by (rule imageI)
  then have "?k \<in> set (filter (\<lambda>m. m \<in> monthName_of rt ` set ?evs) month_titles)"
    using monthName_of_titles [of rt e] by simp
  then have "?g \<in> set (eventos_container (renderEventsList rt st))"
    unfolding eventos_container_eq set_map by (rule imageI)
  moreover have "group_title ?g = ?k"
    by (simp add: month_group_title_rows)
  moreover have "event_item rt e \<in> set (group_rows ?g)"
    using assms by (simp add: month_group_title_rows)
  ultimately show ?thesis
    by blast
qed

lemma list_all2_in_left:
  assumes "list_all2 P xs ys" "x \<in> set xs"
  shows "\<exists>y \<in> set ys. P x y"
  using assms by (induction rule: list_all2_induct) auto

text \<open>When \<open>renderCalendars\<close> ends without an exception, the container holds the block of
  every month of \<open>getMonthsWithEvents\<close>, in that order.\<close>

lemma renderCalendars_complete:
  assumes "snd (renderCalendars rt st) = None"
  shows "list_all2 (\<lambda>ym b. calendar_block rt (allEventos st) ym = Inr b)
           (getMonthsWithEvents rt st) (calendars_container (fst (renderCalendars rt st)))"
proof -
  let ?yms = "getMonthsWithEvents rt st"
  obtain c' err where r: "render_months rt (allEventos st) [] ?yms = (c', err)"
    by (cases "render_months rt (allEventos st) [] ?yms")
  from assms r have e: "err = None" and c: "calendars_container (fst (renderCalendars rt st)) = c'"
    by (simp_all add: renderCalendars_def Let_def)
  from render_months_blocks [OF r] e have
    "list_all2 (\<lambda>ym b. calendar_block rt (allEventos st) ym = Inr b) (take (length c') ?yms) c'"
    "length c' = length ?yms"
    by auto
  then show ?thesis
    by (simp add: c)
qed

lemma rendered_day_cell:
  assumes "snd (renderCalendars rt st) = None"
    and "ym \<in> set (getMonthsWithEvents rt st)"
    and "1 \<le> day" "day \<le> loop_bound (daysInMonth_of rt ym)"
  shows "\<exists>b titleDiv gridDiv c.
           b \<in> set (calendars_container (fst (renderCalendars rt st))) \<and>
           calendar_block rt (allEventos st) ym = Inr b \<and>
           children b = [titleDiv, gridDiv] \<and> c \<in> set (children gridDiv) \<and>
           day_cell (allEventos st) ym day = Inr c"
proof -
  from list_all2_in_left [OF renderCalendars_complete [OF assms(1)] assms(2)] obtain b where
    b: "b \<in> set (calendars_container (fst (renderCalendars rt st)))"
      "calendar_block rt (allEventos st) ym = Inr b"
    by blast
  from calendar_block_children [OF b(2)] obtain titleDiv gridDiv where
    g: "children b = [titleDiv, gridDiv]" "calendar_grid rt (allEventos st) ym = Inr gridDiv"
    by blast
  from calendar_grid_children [OF g(2)] obtain cells where
    c: "children gridDiv = map header_cell dayHeaders
          @ replicate (nat (loop_bound (firstDay_of rt ym))) empty_cell @ cells"
      "list_all2 (\<lambda>d c. day_cell (allEventos st) ym d = Inr c)
         [1 .. loop_bound (daysInMonth_of rt ym)] cells"
    by blast
  have "day \<in> set [1 .. loop_bound (daysInMonth_of rt ym)]"
    using assms(3,4) by simp
  from list_all2_in_left [OF c(2) this] obtain c where
    "c \<in> set cells" "day_cell (allEventos st) ym day = Inr c"
    by blast
  then show ?thesis
    using b g(1) c(1) by auto
qed

text \<open>
  C8, amended. For every event whose category is not in the styling table and is not the
  name of a member of \<open>Object.prototype\<close>: in the list view the row of the event (it has one
  when it passes the filter) has the date box in the fallback colour \<open>#999\<close> and carries
  only the fixed classes of the list view, no class taken from the category. And whenever
  \<open>renderCalendars\<close> ends without an exception, as it does when no event of the list has a
  category that names a member of \<open>Object.prototype\<close>, then for every month of
  \<open>getMonthsWithEvents\<close> and every day of that month of which the event is the first match
  by date string, the block of that month in the container has the cell of that day with
  the fallback colour \<open>#999\<close> and the fallback class \<open>sematividade\<close>.
\<close>

theorem fallback_style:
  assumes "categoria e \<notin> fst ` set categoryColors"
    and "categoria e \<notin> set Object_prototype_keys"
  shows "(e \<in> set (getFilteredEventos st) \<longrightarrow>
            (\<exists>g \<in> set (eventos_container (renderEventsList rt st)).
               group_title g = monthName_of rt e \<and> event_item rt e \<in> set (group_rows g))) \<and>
         (\<exists>dateBox details. children (event_item rt e) = [dateBox, details] \<and>
            backgroundColor dateBox = ''#999'' \<and> classList dateBox = [''event-date-box'']) \<and>
         subtree_classes (event_item rt e) =
           [''event-item'', ''event-date-box'', ''event-details'', ''event-title'',
            ''event-category'', ''event-time'', ''event-location''] \<and>
         ((\<forall>x \<in> set (allEventos st). categoria x \<notin> set Object_prototype_keys) \<longrightarrow>
            snd (renderCalendars rt st) = None) \<and>
         (snd (renderCalendars rt st) = None \<and>
          ym \<in> set (getMonthsWithEvents rt st) \<and>
          1 \<le> day \<and> day \<le> loop_bound (daysInMonth_of rt ym) \<and>
          first_match (allEventos st) ym day = Some e \<longrightarrow>
            (\<exists>b titleDiv gridDiv c.
               b \<in> set (calendars_container (fst (renderCalendars rt st))) \<and>
               calendar_block rt (allEventos st) ym = Inr b \<and>
               children b = [titleDiv, gridDiv] \<and> c \<in> set (children gridDiv) \<and>
               textContent c = String_of_int day \<and>
               backgroundColor c = ''#999'' \<and>
               classList c = [''day-cell'', ''has-event'', ''sematividade'']))"
proof -
  have k: "categoria e \<notin> fst ` set categoryCssClasses"
    using assms(1) table_keys by (metis set_map)
  have c: "or_default (obj_get categoryColors (categoria e)) ''#999'' = JStr ''#999''"
    by (rule or_default_unknown [OF assms])
  have s: "or_default (obj_get categoryCssClasses (categoria e)) ''sematividade'' = JStr ''sematividade''"
    by (rule or_default_unknown [OF k assms(2)])
  have 1: "\<exists>dateBox details. children (event_item rt e) = [dateBox, details] \<and>
            backgroundColor dateBox = ''#999'' \<and> classList dateBox = [''event-date-box'']"
    by (simp add: event_item_children c)
  have 2: "snd (renderCalendars rt st) = None"
    if "\<forall>x \<in> set (allEventos st). categoria x \<notin> set Object_prototype_keys"
    by (rule renderCalendars_ok(1) [OF that])
  have 3: "\<exists>b titleDiv gridDiv c.
               b \<in> set (calendars_container (fst (renderCalendars rt st))) \<and>
               calendar_block rt (allEventos st) ym = Inr b \<and>
               children b = [titleDiv, gridDiv] \<and> c \<in> set (children gridDiv) \<and>
               textContent c = String_of_int day \<and>
               backgroundColor c = ''#999'' \<and>
               classList c = [''day-cell'', ''has-event'', ''sematividade'']"
    if h: "snd (renderCalendars rt st) = None \<and>
          ym \<in> set (getMonthsWithEvents rt st) \<and>
          1 \<le> day \<and> day \<le> loop_bound (daysInMonth_of rt ym) \<and>
          first_match (allEventos st) ym day = Some e"
  proof -
    from h have a: "snd (renderCalendars rt st) = None"
      and m: "ym \<in> set (getMonthsWithEvents rt st)"
      and d: "1 \<le> day" "day \<le> loop_bound (daysInMonth_of rt ym)"
      and f: "first_match (allEventos st) ym day = Some e"
      by simp_all
    from rendered_day_cell [OF a m d] obtain b titleDiv gridDiv cell where
      r: "b \<in> set (calendars_container (fst (renderCalendars rt st)))"
        "calendar_block rt (allEventos st) ym = Inr b"
        "children b = [titleDiv, gridDiv]" "cell \<in> set (children gridDiv)"
        "day_cell (allEventos st) ym day = Inr cell"
      by blast
    have "cell = Element ''div'' [''day-cell'', ''has-event'', ''sematividade''] (String_of_int day)
        ''#999'' (Some (tooltip_of e)) (hover_title_of e) []"
      using r(5) f by (simp add: day_cell_find first_match_def c s)
    then have "textContent cell = String_of_int day \<and> backgroundColor cell = ''#999'' \<and>
        classList cell = [''day-cell'', ''has-event'', ''sematividade'']"
      by simp
    then show ?thesis
      using r(1-4) by blast
  qed
  show ?thesis
    using 1 2 3 event_item_classes [of rt e] list_row_of_event [of e st rt] by blast
qed

theorem fallback_style_witness:
  "categoria posse \<notin> fst ` set categoryColors \<and>
   categoria posse \<notin> set Object_prototype_keys \<and>
   posse \<in> set (getFilteredEventos (page [posse] ''Todas'')) \<and>
   (Some 2027, Some 3) \<in> set (getMonthsWithEvents utc (page [posse] ''Todas'')) \<and>
   (2::int) \<le> loop_bound (daysInMonth_of utc (Some 2027, Some 3)) \<and>
   first_match (allEventos (page [posse] ''Todas'')) (Some 2027, Some 3) 2 = Some posse \<and>
   (\<exists>g \<in> set (eventos_container (renderEventsList utc (page [posse] ''Todas''))).
      group_title g = ''Mar'' @ [CHR 0xC3, CHR 0xA7] @ ''o'' \<and>
      event_item utc posse \<in> set (group_rows g)) \<and>
   (\<exists>dateBox details. children (event_item utc posse) = [dateBox, details] \<and>
      backgroundColor dateBox = ''#999'') \<and>
   snd (renderCalendars utc (page [posse] ''Todas'')) = None \<and>
   (\<exists>b titleDiv gridDiv c.
      b \<in> set (calendars_container (fst (renderCalendars utc (page [posse] ''Todas'')))) \<and>
      children b = [titleDiv, gridDiv] \<and> c \<in> set (children gridDiv) \<and>
      textContent c = ''2'' \<and> backgroundColor c = ''#999'' \<and>
      classList c = [''day-cell'', ''has-event'', ''sematividade''])"
proof -
  have a: "categoria posse \<notin> fst ` set categoryColors"
    by (simp add: posse_def categoryColors_def)
  have b: "categoria posse \<notin> set Object_prototype_keys"
    by (simp add: posse_def Object_prototype_keys_def)
  have l: "posse \<in> set (getFilteredEventos (page [posse] ''Todas''))"
    by (simp add: getFilteredEventos_def page_def)
  have o: "\<forall>x \<in> set (allEventos (page [posse] ''Todas'')). categoria x \<notin> set Object_prototype_keys"
    using b by (simp add: page_def)
  have m: "(Some 2027, Some 3) \<in> set (getMonthsWithEvents utc (page [posse] ''Todas''))"
    by (simp add: months_of_styling_examples)
  have d: "(2::int) \<le> loop_bound (daysInMonth_of utc (Some 2027, Some 3))"
    using daysInMonth_of_calendar [of 2027 3 utc] utc_offset
    by (simp add: loop_bound_def days_in_month_def)
  have f: "first_match (allEventos (page [posse] ''Todas'')) (Some 2027, Some 3) 2 = Some posse"
    by (simp add: first_match_def example_dateStr page_def)
  have t: "String_of_int 2 = ''2''"
    by code_simp
  show ?thesis
    using fallback_style [OF a b, of "page [posse] ''Todas''" utc "(Some 2027, Some 3)" 2]
      a b l o m d f
    by (simp add: example_month_names t) blast
qed

subsection \<open>Events on the same day\<close>

lemma monthName_of_data: "data a = data b \<Longrightarrow> monthName_of rt a = monthName_of rt b"
  by (simp add: monthName_of_def)

text \<open>Two events with one date string have rows in one month group of the unfiltered list
  view, in list order.\<close>

lemma same_day_rows:
  assumes "evs = pre @ e1 # mid @ e2 # post"
    and "data e2 = data e1"
    and "getFilteredEventos st = evs"
  shows "\<exists>g \<in> set (eventos_container (renderEventsList rt st)).
           group_title g = monthName_of rt e1 \<and>
           (\<exists>i j. i < j \<and> j < length (group_rows g) \<and>
                  group_rows g ! i = event_item rt e1 \<and> group_rows g ! j = event_item rt e2)"
proof -
  let ?k = "monthName_of rt e1"
  let ?P = "\<lambda>e. monthName_of rt e = ?k"
  let ?g = "month_group rt ?k (filter ?P evs)"
  let ?i = "length (filter ?P pre)"
  let ?j = "?i + 1 + length (filter ?P mid)"
  have k2: "monthName_of rt e2 = ?k"
    using assms(2) by (rule monthName_of_data)
  have "?k \<in> monthName_of rt ` set evs"
    using assms(1) by simp
  then have "?k \<in> set (filter (\<lambda>m. m \<in> monthName_of rt ` set evs) month_titles)"
    using monthName_of_titles [of rt e1] by simp
  then have m: "?g \<in> set (eventos_container (renderEventsList rt st))"
    unfolding eventos_container_eq assms(3) set_map by (rule imageI)
  have f: "filter ?P evs = filter ?P pre @ e1 # filter ?P mid @ e2 # filter ?P post"
    using k2 by (simp add: assms(1))
  have r: "group_rows ?g =
      map (event_item rt) (filter ?P pre) @ event_item rt e1
        # map (event_item rt) (filter ?P mid) @ event_item rt e2
        # map (event_item rt) (filter ?P post)"
    by (simp add: month_group_title_rows f)
  have "group_rows ?g ! ?i = event_item rt e1"
    unfolding r by (simp add: nth_append)
  moreover have "group_rows ?g ! ?j = event_item rt e2"
    unfolding r by (simp add: nth_append nth_Cons')
  moreover have "?i < ?j" "?j < length (group_rows ?g)"
    unfolding r by simp_all
  moreover have "group_title ?g = ?k"
    by (simp add: month_group_title_rows)
  ultimately show ?thesis
    using m by blast
qed

text \<open>The cell of a day is built from the first event of the list with the date string of
  the day; the events after it leave no trace in the cell.\<close>

lemma first_match_cell:
  assumes "\<forall>e \<in> set pre. data e \<noteq> data e1" "dateStr_of ym day = data e1"
  shows "day_cell (pre @ e1 # post) ym day = day_cell [e1] ym day"
proof -
  have "find (\<lambda>e. data e = dateStr_of ym day) (pre @ e1 # post) = Some e1"
    using assms by (intro find_append_first) simp_all
  moreover have "find (\<lambda>e. data e = dateStr_of ym day) [e1] = Some e1"
    using assms(2) by simp
  ultimately show ?thesis
    by (simp add: day_cell_find)
qed

text \<open>So in a rendered month the cell of a day shared by several events is the cell that
  the first of them alone would give.\<close>

lemma first_match_rendered:
  assumes "snd (renderCalendars rt st) = None"
    and "ym \<in> set (getMonthsWithEvents rt st)"
    and "1 \<le> day" "day \<le> loop_bound (daysInMonth_of rt ym)"
    and "allEventos st = pre @ e1 # post"
    and "\<forall>e \<in> set pre. data e \<noteq> data e1" "dateStr_of ym day = data e1"
  shows "\<exists>b titleDiv gridDiv c.
           b \<in> set (calendars_container (fst (renderCalendars rt st))) \<and>
           children b = [titleDiv, gridDiv] \<and> c \<in> set (children gridDiv) \<and>
           day_cell [e1] ym day = Inr c"
  using rendered_day_cell [OF assms(1-4)] first_match_cell [OF assms(6,7), of post]
  by (auto simp: assms(5))

text \<open>A grid none of whose days has an event: no cell carries \<open>has-event\<close>.\<close>

lemma no_event_grid:
  assumes "calendar_grid rt evs ym = Inr g"
    and "\<And>d. find (\<lambda>e. data e = dateStr_of ym d) evs = None"
  shows "filter has_event (children g) = []"
proof -
  from calendar_grid_children [OF assms(1)] obtain cells where
    ch: "children g = map header_cell dayHeaders
           @ replicate (nat (loop_bound (firstDay_of rt ym))) empty_cell @ cells"
    and cs: "list_all2 (\<lambda>d c. day_cell evs ym d = Inr c) [1 .. loop_bound (daysInMonth_of rt ym)] cells"
    by blast
  have "\<not> has_event c" if "c \<in> set cells" for c
  proof -
    from that cs obtain d where "day_cell evs ym d = Inr c"
      by (auto simp: list_all2_conv_all_nth in_set_conv_nth)
    then have "c = plain_day d"
      by (simp add: day_cell_find assms(2))
    then show ?thesis
      by (simp add: has_event_def plain_day_def)
  qed
  moreover have "\<not> has_event (header_cell h)" for h
    by (simp add: has_event_def header_cell_def createElement_def)
  moreover have "\<not> has_event empty_cell"
    by (simp add: has_event_def empty_cell_def createElement_def)
  ultimately show ?thesis
    by (auto simp: ch filter_empty_conv)
qed

subsection \<open>The local time zone\<close>

text \<open>
  The year, the month and the day of an event are read from its \<open>Date\<close> in local time, and a
  date-only string is midnight UTC. In UTC and east of it (up to a day) the local date is
  the date written in the string, and \<open>getMonthsWithEvents\<close> returns the months written in
  the date strings; west of UTC the local date is the day before, so an event dated the
  first of a month counts for the month before.
\<close>

lemma civil_roundtrip:
  assumes "1 \<le> m" "m \<le> 12" "1 \<le> d" "d \<le> days_in_month y m"
  shows "YearFromDay (MakeDay y (m - 1) d) = y"
    and "MonthFromDay (MakeDay y (m - 1) d) = m - 1"
    and "DateFromDay (MakeDay y (m - 1) d) = d"
proof -
  let ?l = "if leap_year y then 1 else 0 :: int"
  let ?w = "month_start (m - 1) ?l + d - 1"
  have m: "m \<in> {1, 2, 3, 4, 5, 6, 7, 8, 9, 10, 11, 12}"
    using assms(1,2) by simp arith
  have "(m - 1) div 12 = 0" "(m - 1) mod 12 = m - 1"
    using m by auto
  then have e: "MakeDay y (m - 1) d = DayFromYear y + ?w"
    by (simp add: MakeDay_def Let_def)
  have k: "0 \<le> month_start (m - 1) l + d - 1 \<and>
      month_start (m - 1) l + d - 1 < 365 + l \<and>
      month_of (month_start (m - 1) l + d - 1) l = m - 1"
    if "l = 0 \<or> l = 1"
      and "d \<le> (if m = 2 then 28 + l else if m = 4 \<or> m = 6 \<or> m = 9 \<or> m = 11 then 30 else 31)"
    for l :: int
    using m that assms(3) unfolding month_of_def month_start_def
    by (elim insertE disjE emptyE) simp_all
  have dl: "d \<le> (if m = 2 then 28 + ?l else if m = 4 \<or> m = 6 \<or> m = 9 \<or> m = 11 then 30 else 31)"
    using assms(4) by (simp add: days_in_month_def split: if_splits)
  have "?l = 0 \<or> ?l = 1"
    by simp
  from k [OF this dl] have w: "0 \<le> ?w" "?w < DaysInYear y" "month_of ?w ?l = m - 1"
    by (simp_all add: DaysInYear_def split: if_splits)
  show "YearFromDay (MakeDay y (m - 1) d) = y"
    unfolding e by (rule day_in_year(1) [OF w(1,2)])
  show "MonthFromDay (MakeDay y (m - 1) d) = m - 1"
    unfolding e by (simp add: MonthFromDay_def day_in_year [OF w(1,2)] w(3))
  show "DateFromDay (MakeDay y (m - 1) d) = d"
    unfolding e by (simp add: DateFromDay_in_year [OF w(1,2)] w(3))
qed

lemma Day_east:
  assumes "0 \<le> tza" "tza < msPerDay"
  shows "Day (n * msPerDay + tza) = n"
proof -
  have "(tza + n * msPerDay) div msPerDay = n"
    using assms by (simp add: msPerDay_def)
  then show ?thesis
    by (simp add: Day_def add.commute)
qed

lemma digit_val_range: "digit_val c = Some v \<Longrightarrow> 0 \<le> v \<and> v \<le> 9"
  by (auto simp: digit_val_def split: if_splits)

lemma number_of_bound:
  "number_of acc cs = Some v \<Longrightarrow> 0 \<le> acc \<Longrightarrow> 0 \<le> v \<and> v < (acc + 1) * 10 ^ length cs"
proof (induction cs arbitrary: acc)
  case Nil
  then show ?case by simp
next
  case (Cons c cs)
  from Cons.prems(1) obtain dv where dv: "digit_val c = Some dv"
    and r: "number_of (10 * acc + dv) cs = Some v"
    by (auto split: option.splits)
  have d: "0 \<le> dv" "dv \<le> 9"
    using digit_val_range [OF dv] by simp_all
  have nn: "0 \<le> 10 * acc + dv"
    using d(1) Cons.prems(2) by simp
  define p :: int where "p = 10 ^ length cs"
  from Cons.IH [OF r nn] have v: "0 \<le> v" "v < (10 * acc + dv + 1) * p"
    by (simp_all add: p_def)
  have le: "(10 * acc + dv + 1) * p \<le> (10 * (acc + 1)) * p"
    using d(2) by (intro mult_right_mono) (simp_all add: p_def)
  have eq: "(acc + 1) * 10 ^ length (c # cs) = (10 * (acc + 1)) * p"
    by (simp add: p_def)
  have "v < (10 * (acc + 1)) * p"
    by (rule less_le_trans [OF v(2) le])
  then show ?case
    unfolding eq using v(1) by blast
qed

lemma date_only_range:
  assumes "date_only s = Some (y, m, d)"
  shows "0 \<le> y" "y \<le> 9999" "1 \<le> m" "m \<le> 12" "1 \<le> d" "d \<le> days_in_month y m"
proof -
  have y4: "0 \<le> v \<and> v \<le> 9999" if "number_of 0 cs = Some v" "length cs \<le> 4" for cs v
  proof -
    have "(10::int) ^ length cs \<le> 10 ^ 4"
      using that(2) by (intro power_increasing) simp_all
    then show ?thesis
      using number_of_bound [OF that(1)] by simp
  qed
  have "0 \<le> y \<and> y \<le> 9999 \<and> 1 \<le> m \<and> m \<le> 12 \<and> 1 \<le> d \<and> d \<le> days_in_month y m"
    using assms y4 [of s y] y4 [of "take 4 s" y]
    by (auto simp: date_only_def days_in_month_def split: if_splits option.splits)
  then show "0 \<le> y" "y \<le> 9999" "1 \<le> m" "m \<le> 12" "1 \<le> d" "d \<le> days_in_month y m"
    by simp_all
qed

text \<open>In UTC and east of it the \<open>Date\<close> of a date-only string has the year, the month and
  the day of the string.\<close>

lemma local_date_east:
  assumes "date_only (data e) = Some (y, m, d)"
    and "0 \<le> LocalTZA rt" "LocalTZA rt < msPerDay"
  shows "year_month_of rt e = (Some y, Some m)"
    and "getDate (LocalTZA rt) (Date_parse (Date_parse_other rt) (data e)) = Some d"
    and "year_month_of rt e = written_month e"
proof -
  note r = date_only_range [OF assms(1)]
  have "d \<le> 31"
    using r(6) by (simp add: days_in_month_def split: if_splits)
  then have "\<bar>MakeDay y (m - 1) d\<bar> \<le> 99999999"
    using r by (intro MakeDay_bounds) simp_all
  then have "\<bar>MakeDay y (m - 1) d * msPerDay\<bar> \<le> 8640000000000000"
    by (simp add: msPerDay_def abs_mult)
  then have p: "Date_parse (Date_parse_other rt) (data e) = Some (MakeDay y (m - 1) d * msPerDay)"
    by (simp add: Date_parse_def assms(1) TimeClip_def)
  note c = civil_roundtrip [OF r(3-6)]
  show 1: "year_month_of rt e = (Some y, Some m)"
    by (simp add: year_month_of_def Let_def getFullYear_def getMonth_def p
        Day_east [OF assms(2,3)] c)
  show "getDate (LocalTZA rt) (Date_parse (Date_parse_other rt) (data e)) = Some d"
    by (simp add: getDate_def p Day_east [OF assms(2,3)] c)
  show "year_month_of rt e = written_month e"
    by (simp add: 1 written_month_def assms(1))
qed

lemma Date_parse_date_only:
  "date_only s \<noteq> None \<Longrightarrow> Date_parse other s \<noteq> None"
proof -
  assume "date_only s \<noteq> None"
  then obtain y m d where s: "date_only s = Some (y, m, d)"
    by auto
  note r = date_only_range [OF s]
  have "d \<le> 31"
    using r(6) by (simp add: days_in_month_def split: if_splits)
  then have "\<bar>MakeDay y (m - 1) d\<bar> \<le> 99999999"
    using r by (intro MakeDay_bounds) simp_all
  then have "\<bar>MakeDay y (m - 1) d * msPerDay\<bar> \<le> 8640000000000000"
    by (simp add: msPerDay_def abs_mult)
  then show ?thesis
    by (simp add: Date_parse_def s TimeClip_def)
qed

text \<open>In UTC and east of it, for events with dates in the date-only form,
  \<open>getMonthsWithEvents\<close> returns exactly the pairs of year and month written in the date
  strings, each once, in ascending order by year and month.\<close>

lemma getMonthsWithEvents_east_of_UTC:
  assumes "0 \<le> LocalTZA rt" "LocalTZA rt < msPerDay"
    and "\<forall>e \<in> set (allEventos st). date_only (data e) \<noteq> None"
  shows "set (getMonthsWithEvents rt st) = written_month ` set (allEventos st)"
    and "distinct (getMonthsWithEvents rt st)"
    and "sorted_wrt ym_before (getMonthsWithEvents rt st)"
proof -
  have v: "\<forall>e \<in> set (allEventos st). Date_parse (Date_parse_other rt) (data e) \<noteq> None"
    using assms(3) Date_parse_date_only by blast
  have "year_month_of rt e = written_month e" if "e \<in> set (allEventos st)" for e
  proof -
    from that assms(3) obtain y m d where "date_only (data e) = Some (y, m, d)"
      by fastforce
    then show ?thesis
      by (rule local_date_east(3) [OF _ assms(1,2)])
  qed
  then have "year_month_of rt ` set (allEventos st) = written_month ` set (allEventos st)"
    by (intro image_cong) simp_all
  then show "set (getMonthsWithEvents rt st) = written_month ` set (allEventos st)"
    using getMonthsWithEvents_valid(2) [OF v] by simp
  show "distinct (getMonthsWithEvents rt st)"
    by (rule getMonthsWithEvents_valid(1) [OF v])
  show "sorted_wrt ym_before (getMonthsWithEvents rt st)"
    by (rule getMonthsWithEvents_valid(3) [OF v])
qed

lemma first_of_month_west_of_UTC:
  "year_month_of utc ano_novo = (Some 2026, Some 1)"
  "year_month_of sao_paulo ano_novo = (Some 2025, Some 12)"
  "monthName_of sao_paulo ano_novo = ''Dezembro''"
  "getDate (LocalTZA sao_paulo) (Date_parse (Date_parse_other sao_paulo) (data ano_novo)) = Some 31"
  "written_month ano_novo = (Some 2026, Some 1)"
  by code_simp+

text \<open>
  C6 fails on the code west of UTC. The event \<open>ano_novo\<close> is dated 1 January 2026, so the one
  pair of year and month with an event is (2026, 1), and that is what \<open>getMonthsWithEvents\<close>
  returns in UTC. In Sao Paulo, three hours west, \<open>new Date('2026-01-01')\<close> is 21:00 on 31
  December 2025 in local time, and \<open>getMonthsWithEvents\<close> returns the pair (2025, 12), a
  month without any event.
\<close>

theorem getMonthsWithEvents_west_of_UTC:
  "data ano_novo = ''2026-01-01'' \<and>
   written_month ano_novo = (Some 2026, Some 1) \<and>
   LocalTZA sao_paulo = - 10800000 \<and>
   getMonthsWithEvents sao_paulo (page [ano_novo] ''Todas'') = [(Some 2025, Some 12)] \<and>
   getMonthsWithEvents sao_paulo (page [ano_novo] ''Todas'') \<noteq> [written_month ano_novo] \<and>
   getMonthsWithEvents utc (page [ano_novo] ''Todas'') = [(Some 2026, Some 1)]"
proof -
  have m: "getMonthsWithEvents sao_paulo (page [ano_novo] ''Todas'') = [(Some 2025, Some 12)]"
    "getMonthsWithEvents utc (page [ano_novo] ''Todas'') = [(Some 2026, Some 1)]"
    by code_simp+
  have d: "data ano_novo = ''2026-01-01''"
    by (simp add: ano_novo_def)
  have t: "LocalTZA sao_paulo = - 10800000"
    by (simp add: sao_paulo_def utc_def)
  show ?thesis
    using m d t first_of_month_west_of_UTC(5) by simp
qed

lemma sao_paulo_offset: "\<bar>LocalTZA sao_paulo\<bar> \<le> msPerDay"
  by (simp add: sao_paulo_def utc_def msPerDay_def)

lemma first_of_march_west_of_UTC:
  "getMonthsWithEvents sao_paulo (page [abertura, jantar] ''Todas'') = [(Some 2026, Some 2)]"
  "getMonthsWithEvents utc (page [abertura, jantar] ''Todas'') = [(Some 2026, Some 3)]"
  "monthName_of sao_paulo abertura = ''Fevereiro''"
  "monthName_of sao_paulo jantar = ''Fevereiro''"
  "getDate (LocalTZA sao_paulo) (Date_parse (Date_parse_other sao_paulo) (data abertura)) = Some 28"
  "capitalize (toLocaleString_month_year (LocalTZA sao_paulo)
     (Date_local (LocalTZA sao_paulo) 2026 1 1)) = ''Fevereiro de 2026''"
  "String_of (Some 2026) = ''2026''" "padStart2 (String_of (Some 2)) = ''02''"
  "String_of_number (Some 28) = ''28''"
  by code_simp+

lemma first_of_march_in_UTC:
  "capitalize (toLocaleString_month_year (LocalTZA utc) (Date_local (LocalTZA utc) 2026 2 1)) =
     ''Mar'' @ [CHR 0xC3, CHR 0xA7] @ ''o de 2026''"
  "day_cell [abertura, jantar] (Some 2026, Some 3) 1 =
     Inr (Element ''div'' [''day-cell'', ''has-event'', ''estadual''] ''1'' ''#1e3a52''
            (Some (tooltip_of abertura)) (hover_title_of abertura) [])"
  "hover_title_of abertura = ''Abertura - 19:00 - Templo''"
  by code_simp+

lemma february_dateStr:
  "dateStr_of (Some 2026, Some 2) d = ''2026-02-'' @ padStart2 (String_of_int d)"
  by (simp add: dateStr_of_def first_of_march_west_of_UTC)

text \<open>
  C4 fails on the code west of UTC. The events \<open>abertura\<close> and \<open>jantar\<close> are both dated 1
  March 2026. In Sao Paulo \<open>getMonthsWithEvents\<close> returns only February 2026 for them, so
  the grid view is the single block of February 2026, 35 cells none of which carries an
  event: there is no cell for 1 March, styled from the first event or otherwise. The list
  view has both rows, but under the heading \<open>Fevereiro\<close> and with the day 28 in the date
  box. In UTC the same list gives the block of March 2026, and the cell of day 1 in it is
  built from \<open>abertura\<close>, the first of the two events, alone.
\<close>

theorem same_day_events_west_of_UTC:
  "data abertura = ''2026-03-01'' \<and> data jantar = data abertura \<and>
   LocalTZA sao_paulo = - 10800000 \<and>
   getMonthsWithEvents sao_paulo (page [abertura, jantar] ''Todas'') = [(Some 2026, Some 2)] \<and>
   snd (renderCalendars sao_paulo (page [abertura, jantar] ''Todas'')) = None \<and>
   map block_title
     (calendars_container (fst (renderCalendars sao_paulo (page [abertura, jantar] ''Todas'')))) =
     [''Fevereiro de 2026''] \<and>
   map cell_count
     (calendars_container (fst (renderCalendars sao_paulo (page [abertura, jantar] ''Todas'')))) =
     [35] \<and>
   map event_cells
     (calendars_container (fst (renderCalendars sao_paulo (page [abertura, jantar] ''Todas'')))) =
     [[]] \<and>
   eventos_container (renderEventsList sao_paulo (page [abertura, jantar] ''Todas'')) =
     [month_group sao_paulo ''Fevereiro'' [abertura, jantar]] \<and>
   textContent (hd (children (event_item sao_paulo abertura))) = ''28'' \<and>
   textContent (hd (children (event_item sao_paulo jantar))) = ''28'' \<and>
   getMonthsWithEvents utc (page [abertura, jantar] ''Todas'') = [(Some 2026, Some 3)] \<and>
   map block_title
     (calendars_container (fst (renderCalendars utc (page [abertura, jantar] ''Todas'')))) =
     [''Mar'' @ [CHR 0xC3, CHR 0xA7] @ ''o de 2026''] \<and>
   Element ''div'' [''day-cell'', ''has-event'', ''estadual''] ''1'' ''#1e3a52''
       (Some (tooltip_of abertura)) ''Abertura - 19:00 - Templo'' []
     \<in> set (concat (map block_cells
           (calendars_container (fst (renderCalendars utc (page [abertura, jantar] ''Todas''))))))"
proof -
  let ?st = "page [abertura, jantar] ''Todas''"
  have ev: "allEventos ?st = [abertura, jantar]"
    by (simp add: page_def)
  have c: "\<forall>e \<in> set (allEventos ?st). categoria e \<notin> set Object_prototype_keys"
    by (simp add: page_def abertura_def jantar_def Object_prototype_keys_def)
  from single_block [OF c first_of_march_west_of_UTC(1)] obtain b titleDiv gridDiv where
    b: "calendars_container (fst (renderCalendars sao_paulo ?st)) = [b]"
      "children b = [titleDiv, gridDiv]"
      "textContent titleDiv = ''Fevereiro de 2026''"
      "calendar_grid sao_paulo (allEventos ?st) (Some 2026, Some 2) = Inr gridDiv"
    by (auto simp: ToNumber_def first_of_march_west_of_UTC)
  have n: "length (children gridDiv) = 35"
    using calendar_grid_counts(4) [OF b(4)] loop_bounds_of_calendar [of 2026 2 sao_paulo]
      sao_paulo_offset
    by (simp add: weekday_of_date_def days_in_month_def leap_year_def)
  have "find (\<lambda>e. data e = dateStr_of (Some 2026, Some 2) d) (allEventos ?st) = None" for d
    by (simp only: ev) (simp add: february_dateStr abertura_def jantar_def)
  from no_event_grid [OF b(4) this] have h: "filter has_event (children gridDiv) = []" .
  have 1: "block_title b = ''Fevereiro de 2026''" "cell_count b = 35" "event_cells b = []"
    using b(2,3) n h
    by (simp_all add: block_title_def cell_count_def event_cells_def block_cells_def)
  have 2: "eventos_container (renderEventsList sao_paulo ?st) =
     [month_group sao_paulo ''Fevereiro'' [abertura, jantar]]"
    unfolding eventos_container_eq
    by (simp add: getFilteredEventos_def page_def first_of_march_west_of_UTC month_titles_def
        meses_def)
  have d: "data jantar = data abertura" "data abertura = ''2026-03-01''"
    by (simp_all add: abertura_def jantar_def)
  have 3: "textContent (hd (children (event_item sao_paulo abertura))) = ''28''"
    "textContent (hd (children (event_item sao_paulo jantar))) = ''28''"
    by (simp_all add: event_item_children d(1) first_of_march_west_of_UTC)
  have 4: "LocalTZA sao_paulo = - 10800000"
    by (simp add: sao_paulo_def utc_def)
  from single_block [OF c first_of_march_west_of_UTC(2)] obtain b0 t0 g0 where
    b0: "calendars_container (fst (renderCalendars utc ?st)) = [b0]"
      "children b0 = [t0, g0]"
      "textContent t0 = ''Mar'' @ [CHR 0xC3, CHR 0xA7] @ ''o de 2026''"
    by (auto simp: ToNumber_def first_of_march_in_UTC)
  have "(1::int) \<le> loop_bound (daysInMonth_of utc (Some 2026, Some 3))"
    using daysInMonth_of_calendar [of 2026 3 utc] utc_offset
    by (simp add: loop_bound_def days_in_month_def)
  from rendered_day_cell [OF renderCalendars_ok(1) [OF c] _ _ this]
  obtain b' t' g' c' where
    r: "b' \<in> set (calendars_container (fst (renderCalendars utc ?st)))"
      "children b' = [t', g']" "c' \<in> set (children g')"
      "day_cell (allEventos ?st) (Some 2026, Some 3) 1 = Inr c'"
    by (auto simp: first_of_march_west_of_UTC(2))
  have "c' \<in> set (block_cells b0)"
    using r(1,2,3) b0(1) by (simp add: block_cells_def)
  then have 5: "Element ''div'' [''day-cell'', ''has-event'', ''estadual''] ''1'' ''#1e3a52''
       (Some (tooltip_of abertura)) ''Abertura - 19:00 - Templo'' []
     \<in> set (concat (map block_cells (calendars_container (fst (renderCalendars utc ?st)))))"
    using r(4) by (simp add: ev b0(1) first_of_march_in_UTC)
  have 6: "map block_title (calendars_container (fst (renderCalendars utc ?st))) =
     [''Mar'' @ [CHR 0xC3, CHR 0xA7] @ ''o de 2026'']"
    using b0 by (simp add: block_title_def)
  show ?thesis
    using 1 2 3 4 5 6 d b(1) renderCalendars_ok(1) [OF c, of sao_paulo]
      first_of_march_west_of_UTC(1,2)
    by simp
qed

end
